theory Spec2Isabelle
  imports Main "HOL-Library.Monad_Syntax"
begin

unbundle bit_operations_syntax

section \<open>Machine integers\<close>

text \<open>
  The C code works on \<^verbatim>\<open>int\<close> (32 bit, two's complement), \<^verbatim>\<open>uint32_t\<close>,
  \<^verbatim>\<open>uint16_t\<close> and \<^verbatim>\<open>uint8_t\<close>. All of them are modelled as HOL integers; a
  conversion to one of the C types is written out as the function that wraps the value
  into the range of the type. Counters and array indices, which the sizes of the arrays
  bound, are natural numbers. The bit operations of C on non-negative values are the bit
  operations of HOL on \<^typ>\<open>int\<close>.
\<close>

definition u8 :: "int \<Rightarrow> int" where
  "u8 x = x mod 2 ^ 8"

definition u16 :: "int \<Rightarrow> int" where
  "u16 x = x mod 2 ^ 16"

definition u32 :: "int \<Rightarrow> int" where
  "u32 x = x mod 2 ^ 32"

definition s16 :: "int \<Rightarrow> int" where
  "s16 x = (x + 2 ^ 15) mod 2 ^ 16 - 2 ^ 15"

definition s32 :: "int \<Rightarrow> int" where
  "s32 x = (x + 2 ^ 31) mod 2 ^ 32 - 2 ^ 31"

text \<open>Division of C: the quotient is truncated towards zero.\<close>

definition cdiv :: "int \<Rightarrow> int \<Rightarrow> int" where
  "cdiv a b = sgn a * sgn b * (\<bar>a\<bar> div \<bar>b\<bar>)"

section \<open>The data model of \<^verbatim>\<open>io_hess.h\<close>\<close>

definition HI_GAIN :: nat where
  "HI_GAIN = 0"

definition LO_GAIN :: nat where
  "LO_GAIN = 1"

definition H_MAX_GAINS :: int where
  "H_MAX_GAINS = 2"

definition RAWDATA_FLAG :: int where
  "RAWDATA_FLAG = 1"

definition RAWSUM_FLAG :: int where
  "RAWSUM_FLAG = 2"

definition IO_TYPE_HESS_TELADCSUM :: int where
  "IO_TYPE_HESS_TELADCSUM = 2000 + 12"

definition IO_TYPE_HESS_TELADCSAMP :: int where
  "IO_TYPE_HESS_TELADCSAMP = 2000 + 13"

text \<open>
  \<^verbatim>\<open>H_MAX_PIX\<close> and \<^verbatim>\<open>H_MAX_SLICES\<close> are fixed when the library is compiled
  (960, 4095, 40000 or 230000 pixels, among others, and 40, 96 or 128 slices); the
  functions that test them take the configuration as their first argument.
\<close>

record limits =
  H_MAX_PIX :: int
  H_MAX_SLICES :: int

text \<open>
  \<^verbatim>\<open>struct hess_tel_event_adc_struct\<close>. The arrays of \<^verbatim>\<open>H_MAX_PIX\<close> elements are
  total functions of the index. A store at an index at or beyond \<^verbatim>\<open>H_MAX_PIX\<close>
  changes a neighbouring field in C and has no defined result. The readers index the
  arrays with the pixel count of the record, which they test against \<^verbatim>\<open>H_MAX_PIX\<close>, and
  in two places with pixel numbers taken from the record without a test: the pixel list
  of zero suppression mode 2 and the pixel ranges of zero-suppressed sample-mode data. In
  these two places a pixel at or beyond \<^verbatim>\<open>H_MAX_PIX\<close> gives the result \<open>None\<close>. The
  writers do not test their data against \<^verbatim>\<open>H_MAX_PIX\<close>: they take data whose pixel
  count, list size and list entries lie within the arrays.
\<close>

record AdcData =
  known :: int
  tel_id :: int
  num_pixels :: int
  num_gains :: int
  num_samples :: int
  zero_sup_mode :: int
  data_red_mode :: int
  offset_hg8 :: int
  scale_hg8 :: int
  threshold :: int
  list_known :: int
  list_size :: int
  adc_list :: "nat \<Rightarrow> int"
  significant :: "nat \<Rightarrow> int"
  adc_known :: "nat \<Rightarrow> nat \<Rightarrow> int"
  adc_sum :: "nat \<Rightarrow> nat \<Rightarrow> int"
  adc_sample :: "nat \<Rightarrow> nat \<Rightarrow> nat \<Rightarrow> int"

text \<open>The structure with every byte zero, from which the examples start.\<close>

definition adc_cleared :: AdcData where
  "adc_cleared =
     \<lparr>known = 0, tel_id = 0, num_pixels = 0, num_gains = 0, num_samples = 0,
      zero_sup_mode = 0, data_red_mode = 0, offset_hg8 = 0, scale_hg8 = 0, threshold = 0,
      list_known = 0, list_size = 0, adc_list = (\<lambda>j. 0), significant = (\<lambda>p. 0),
      adc_known = (\<lambda>g p. 0), adc_sum = (\<lambda>g p. 0), adc_sample = (\<lambda>g p i. 0)\<rparr>"

section \<open>The primitive codec\<close>

text \<open>
  Modelled from the spec: the primitive codec of eventio (\<^verbatim>\<open>put_item_begin\<close>,
  \<^verbatim>\<open>get_item_end\<close>, \<^verbatim>\<open>put_short\<close>, \<^verbatim>\<open>get_scount32\<close> and the others) is an
  external collaborator whose source is not part of the files verified here. The
  specification fixes its contract: records are length-framed containers with a type, a
  version and an identifier; the primitive encodings are fixed-width integers of 8, 16 and
  32 bits and a signed and an unsigned variable-length integer. The wire is modelled one
  level above the bytes: every primitive write leaves one token that holds the bit pattern
  (fixed width) or the value (variable length) written, and every primitive read takes
  one token of its own encoding. A read that finds the data of the record exhausted, or a
  token of another encoding, is outside the contract and has the result \<open>None\<close>.
\<close>

datatype token =
  Byte int
  | Word16 int
  | Word32 int
  | Count int
  | SCount int

record IO_ITEM_HEADER =
  type :: int
  version :: int
  ident :: int

text \<open>
  Modelled from the spec: a record on the wire is its header and its data; an I/O buffer
  is the sequence of records in it. The writer appends a record, the reader works on the
  first one and \<^verbatim>\<open>get_item_end\<close> moves past it wherever reading stopped.
\<close>

type_synonym item = "IO_ITEM_HEADER \<times> token list"

type_synonym IO_BUFFER = "item list"

definition put_item_begin :: "IO_ITEM_HEADER \<Rightarrow> item" where
  "put_item_begin item_header = (item_header, [])"

definition put_item_end :: "IO_BUFFER \<Rightarrow> item \<Rightarrow> int \<times> IO_BUFFER" where
  "put_item_end iobuf it = (0, iobuf @ [it])"

definition get_item_begin :: "IO_BUFFER \<Rightarrow> int \<Rightarrow> int \<times> IO_ITEM_HEADER \<times> token list" where
  "get_item_begin iobuf wanted =
     (case iobuf of
        [] \<Rightarrow> (-2, \<lparr>type = wanted, version = 0, ident = 0\<rparr>, [])
      | it # rest \<Rightarrow>
          if type (fst it) = wanted then (0, fst it, snd it)
          else (-1, \<lparr>type = wanted, version = 0, ident = 0\<rparr>, []))"

definition get_item_end :: "IO_BUFFER \<Rightarrow> int \<times> IO_BUFFER" where
  "get_item_end iobuf = (0, tl iobuf)"

text \<open>Modelled from the spec: the writing primitives append to the data of the open record.\<close>

definition put_byte :: "int \<Rightarrow> item \<Rightarrow> item" where
  "put_byte v it = (fst it, snd it @ [Byte (u8 v)])"

definition put_short :: "int \<Rightarrow> item \<Rightarrow> item" where
  "put_short v it = (fst it, snd it @ [Word16 (u16 v)])"

definition put_long :: "int \<Rightarrow> item \<Rightarrow> item" where
  "put_long v it = (fst it, snd it @ [Word32 (u32 v)])"

definition put_count :: "int \<Rightarrow> item \<Rightarrow> item" where
  "put_count v it = (fst it, snd it @ [Count v])"

definition put_scount :: "int \<Rightarrow> item \<Rightarrow> item" where
  "put_scount v it = (fst it, snd it @ [SCount v])"

definition put_scount32 :: "int \<Rightarrow> item \<Rightarrow> item" where
  "put_scount32 v it = (fst it, snd it @ [SCount (s32 v)])"

definition put_vector_of_uint8 :: "int list \<Rightarrow> item \<Rightarrow> item" where
  "put_vector_of_uint8 vec it = fold put_byte vec it"

definition put_vector_of_uint16 :: "int list \<Rightarrow> item \<Rightarrow> item" where
  "put_vector_of_uint16 vec it = fold put_short vec it"

definition put_vector_of_int :: "int list \<Rightarrow> item \<Rightarrow> item" where
  "put_vector_of_int vec it = fold put_short vec it"

definition put_vector_of_int_scount :: "int list \<Rightarrow> item \<Rightarrow> item" where
  "put_vector_of_int_scount vec it = fold put_scount vec it"

text \<open>Modelled from the spec: the reading primitives, on the unread data of the record.\<close>

fun get_byte :: "token list \<Rightarrow> (int \<times> token list) option" where
  "get_byte (Byte v # iobuf) = Some (v, iobuf)"
| "get_byte _ = None"

fun get_uint16 :: "token list \<Rightarrow> (int \<times> token list) option" where
  "get_uint16 (Word16 v # iobuf) = Some (v, iobuf)"
| "get_uint16 _ = None"

fun get_short :: "token list \<Rightarrow> (int \<times> token list) option" where
  "get_short (Word16 v # iobuf) = Some (s16 v, iobuf)"
| "get_short _ = None"

fun get_long :: "token list \<Rightarrow> (int \<times> token list) option" where
  "get_long (Word32 v # iobuf) = Some (s32 v, iobuf)"
| "get_long _ = None"

fun get_count :: "token list \<Rightarrow> (int \<times> token list) option" where
  "get_count (Count v # iobuf) = Some (v, iobuf)"
| "get_count _ = None"

fun get_scount :: "token list \<Rightarrow> (int \<times> token list) option" where
  "get_scount (SCount v # iobuf) = Some (v, iobuf)"
| "get_scount _ = None"

fun get_scount32 :: "token list \<Rightarrow> (int \<times> token list) option" where
  "get_scount32 (SCount v # iobuf) = Some (s32 v, iobuf)"
| "get_scount32 _ = None"

text \<open>A vector of \<open>n\<close> elements, each read by the same primitive.\<close>

fun get_vector :: "(token list \<Rightarrow> (int \<times> token list) option) \<Rightarrow> nat \<Rightarrow> token list
    \<Rightarrow> (int list \<times> token list) option" where
  "get_vector get 0 iobuf = Some ([], iobuf)"
| "get_vector get (Suc n) iobuf =
     (case get iobuf of
        None \<Rightarrow> None
      | Some (v, iobuf1) \<Rightarrow>
          (case get_vector get n iobuf1 of
             None \<Rightarrow> None
           | Some (vs, iobuf2) \<Rightarrow> Some (v # vs, iobuf2)))"

definition get_vector_of_uint8 :: "int \<Rightarrow> token list \<Rightarrow> (int list \<times> token list) option" where
  "get_vector_of_uint8 n iobuf = get_vector get_byte (nat n) iobuf"

definition get_vector_of_uint16 :: "int \<Rightarrow> token list \<Rightarrow> (int list \<times> token list) option" where
  "get_vector_of_uint16 n iobuf = get_vector get_uint16 (nat n) iobuf"

definition get_vector_of_int :: "int \<Rightarrow> token list \<Rightarrow> (int list \<times> token list) option" where
  "get_vector_of_int n iobuf = get_vector get_short (nat n) iobuf"

definition get_vector_of_int_scount :: "int \<Rightarrow> token list \<Rightarrow> (int list \<times> token list) option" where
  "get_vector_of_int_scount n iobuf = get_vector get_scount32 (nat n) iobuf"

text \<open>
  A vector argument of C (a pointer and a count \<open>n\<close>) is the list of its first \<open>n\<close>
  elements; \<open>store a k vs\<close> is the array \<open>a\<close> after the elements \<open>vs\<close> were written
  to \<open>a[k]\<close>, \<open>a[k+1]\<close>, ...
\<close>

definition store :: "(nat \<Rightarrow> int) \<Rightarrow> nat \<Rightarrow> int list \<Rightarrow> (nat \<Rightarrow> int)" where
  "store a k vs = (\<lambda>i. if k \<le> i \<and> i < k + length vs then vs ! (i - k) else a i)"

section \<open>The amplitude coders of \<^verbatim>\<open>io_hess.c\<close>\<close>

text \<open>\<^verbatim>\<open>put_adcsum_as_uint16\<close>, \<^verbatim>\<open>get_adcsum_as_uint16\<close>: the old 16-bit format.\<close>

definition put_adcsum_as_uint16 :: "int list \<Rightarrow> item \<Rightarrow> item" where
  "put_adcsum_as_uint16 vec iobuf =
     put_vector_of_uint16 (map (\<lambda>a. if a < 65535 then u16 a else 65535) vec) iobuf"

definition get_adcsum_as_uint16 :: "int \<Rightarrow> token list \<Rightarrow> (int list \<times> token list) option" where
  "get_adcsum_as_uint16 n iobuf = get_vector_of_uint16 n iobuf"

text \<open>
  \<^verbatim>\<open>put_adcsum_differential\<close>, \<^verbatim>\<open>get_adcsum_differential\<close>: the difference to the
  previous amplitude, in \<^verbatim>\<open>int32_t\<close> arithmetic, as a variable-length integer.
\<close>

fun put_differential :: "int \<Rightarrow> int list \<Rightarrow> item \<Rightarrow> item" where
  "put_differential prev_amp [] iobuf = iobuf"
| "put_differential prev_amp (a # adc) iobuf =
     (let this_amp = s32 a;
          amp_diff = s32 (this_amp - prev_amp)
      in put_differential this_amp adc (put_scount32 amp_diff iobuf))"

definition put_adcsum_differential :: "int list \<Rightarrow> item \<Rightarrow> item" where
  "put_adcsum_differential vec iobuf = put_differential 0 vec iobuf"

fun get_differential :: "(int \<Rightarrow> int) \<Rightarrow> int \<Rightarrow> nat \<Rightarrow> token list \<Rightarrow> (int list \<times> token list) option" where
  "get_differential conv prev_amp 0 iobuf = Some ([], iobuf)"
| "get_differential conv prev_amp (Suc n) iobuf =
     (case get_scount32 iobuf of
        None \<Rightarrow> None
      | Some (d, iobuf1) \<Rightarrow>
          (let this_amp = s32 (d + prev_amp)
           in case get_differential conv this_amp n iobuf1 of
                None \<Rightarrow> None
              | Some (vs, iobuf2) \<Rightarrow> Some (conv this_amp # vs, iobuf2)))"

definition get_adcsum_differential :: "int \<Rightarrow> token list \<Rightarrow> (int list \<times> token list) option" where
  "get_adcsum_differential n iobuf = get_differential u32 0 (nat n) iobuf"

text \<open>\<^verbatim>\<open>put_adcsample_differential\<close>, the same for the 16-bit samples of a trace.\<close>

definition put_adcsample_differential :: "int list \<Rightarrow> item \<Rightarrow> item" where
  "put_adcsample_differential vec iobuf = put_differential 0 vec iobuf"

definition get_adcsample_differential :: "int \<Rightarrow> token list \<Rightarrow> (int list \<times> token list) option" where
  "get_adcsample_differential n iobuf = get_differential u16 0 (nat n) iobuf"

text \<open>
  Modelled from the spec: \<^verbatim>\<open>get_vector_of_uint32_scount_differential\<close> and
  \<^verbatim>\<open>get_vector_of_uint16_scount_differential\<close> belong to the primitive codec, which is
  not among the source files. They are the decoders of the differential integer coder:
  the inverse accumulates the deltas back into absolute values. The readers call them
  where the code under \<^verbatim>\<open>OLD_CODE\<close> calls \<^verbatim>\<open>get_adcsum_differential\<close> and
  \<^verbatim>\<open>get_adcsample_differential\<close>.
\<close>

definition get_vector_of_uint32_scount_differential ::
    "int \<Rightarrow> token list \<Rightarrow> (int list \<times> token list) option" where
  "get_vector_of_uint32_scount_differential n iobuf = get_differential u32 0 (nat n) iobuf"

definition get_vector_of_uint16_scount_differential ::
    "int \<Rightarrow> token list \<Rightarrow> (int list \<times> token list) option" where
  "get_vector_of_uint16_scount_differential n iobuf = get_differential u16 0 (nat n) iobuf"

section \<open>\<^verbatim>\<open>write_hess_teladc_sums\<close>\<close>

text \<open>
  The function is translated in the order of its text: the version of the record, the
  modes in effect, the test of the options, the pixel list, the identifier, the
  parameters of the 8-bit reduction and the nine combinations of zero suppression and
  data reduction. The two pointers are not modelled: the buffer and the data are values,
  and the test for \<^verbatim>\<open>NULL\<close> has no counterpart.
\<close>

text \<open>\<^verbatim>\<open>item_header.version\<close>, lines 3164 to 3168.\<close>

definition sums_version :: "AdcData \<Rightarrow> int" where
  "sums_version raw =
     (let ver = 3;
          ver = (if num_pixels raw > 32767 \<and> zero_sup_mode raw \<ge> 2 then 4 else ver);
          ver = (if num_pixels raw > 8191 \<and> zero_sup_mode raw \<ge> 2 \<and> data_red_mode raw \<noteq> 0
                 then 4 else ver)
      in ver)"

text \<open>The local \<^verbatim>\<open>zero_sup_mode\<close> and \<^verbatim>\<open>data_red_mode\<close>, lines 3147, 3148 and 3170 to 3184.\<close>

definition sums_modes :: "AdcData \<Rightarrow> int \<Rightarrow> int \<times> int" where
  "sums_modes raw ver =
     (let zero_sup = zero_sup_mode raw AND 0x1f;
          data_red = data_red_mode raw AND 0x1f;
          data_red = (if threshold raw = 0 then 0 else data_red);
          zero_sup = (if num_pixels raw \<ge> 32768 \<and> zero_sup \<ge> 2 \<and> ver < 4 then 1 else zero_sup);
          data_red = (if num_pixels raw \<ge> 8192 \<and> data_red > 0 \<and> ver < 4 then 0 else data_red)
      in (zero_sup, data_red))"

text \<open>The test "Unsupported raw data mode", lines 3187 to 3196.\<close>

definition sums_unsupported :: "AdcData \<Rightarrow> int \<Rightarrow> int \<Rightarrow> int \<Rightarrow> bool" where
  "sums_unsupported raw ver zero_sup data_red \<longleftrightarrow>
     list_known raw < 0 \<or> list_known raw > 2 \<or>
     zero_sup < 0 \<or> zero_sup > 4 \<or>
     data_red < 0 \<or> data_red > 2 \<or>
     num_pixels raw < 0 \<or>
     (num_pixels raw > 4095 \<and> ver < 2) \<or>
     num_gains raw < 1 \<or> num_gains raw > 2"

text \<open>
  The loop of lines 3205 to 3207: \<open>create_list sig m i (lst, nlst)\<close> visits the \<open>m\<close>
  pixels from \<open>i\<close> on.
\<close>

fun create_list :: "(nat \<Rightarrow> int) \<Rightarrow> nat \<Rightarrow> nat \<Rightarrow> (nat \<Rightarrow> int) \<times> nat \<Rightarrow> (nat \<Rightarrow> int) \<times> nat" where
  "create_list sig 0 i (lst, nlst) = (lst, nlst)"
| "create_list sig (Suc m) i (lst, nlst) =
     create_list sig m (Suc i)
       (if sig i \<noteq> 0 then (lst(nlst := int i), Suc nlst) else (lst, nlst))"

text \<open>
  The pixel list and the choice of the suppression scheme, lines 3202 to 3230. The result
  is the data with the list filled in and the zero suppression mode to be used.
\<close>

definition sums_select :: "AdcData \<Rightarrow> int \<Rightarrow> AdcData \<times> int" where
  "sums_select raw zero_sup =
     (let (raw1, zero_sup1) =
        (if zero_sup = 3 \<or> (zero_sup = 2 \<and> list_known raw = 0) then
           (let (lst, nlst) = create_list (significant raw) (nat (num_pixels raw)) 0 (adc_list raw, 0);
                raw1 = raw\<lparr>list_known := 1, list_size := int nlst, adc_list := lst\<rparr>
            in (raw1,
                if zero_sup = 3 then
                  (if cdiv (17 * int nlst) 16 > num_pixels raw then 0
                   else if 15 * int nlst > num_pixels raw then 1
                   else 2)
                else zero_sup))
         else (raw, zero_sup))
      in if zero_sup1 = 2 then (raw1\<lparr>list_known := 1\<rparr>, zero_sup1)
         else if zero_sup1 = 3 then (raw1, 1)
         else (raw1, zero_sup1))"

text \<open>\<^verbatim>\<open>flags\<close>, the identifier of the record, lines 3234 to 3244.\<close>

definition sums_flags :: "AdcData \<Rightarrow> int \<Rightarrow> int \<Rightarrow> int \<Rightarrow> int" where
  "sums_flags raw ver zero_sup data_red =
     (let flags = zero_sup OR push_bit 5 data_red OR
                  push_bit 10 (if list_known raw \<noteq> 0 then 1 else 0)
      in if ver < 2 then
           flags OR (push_bit 12 (num_pixels raw) OR
                     push_bit 24 (if num_gains raw = 2 then 1 else 0) OR
                     push_bit 25 (tel_id raw AND 0x1f))
         else flags OR push_bit 12 (tel_id raw AND 0xffff))"

text \<open>
  The offset and the scale of the 8-bit reduction, lines 3262 to 3282. With no offset
  given the mean of the high-gain amplitudes is taken, summed up as \<^verbatim>\<open>int\<close>; the
  division by a pixel count of zero ends the program, which is the result \<open>None\<close>.
\<close>

definition sums_hg8 :: "AdcData \<Rightarrow> (int \<times> int) option" where
  "sums_hg8 raw =
     (let scale = scale_hg8 raw;
          scale = (if scale < 1 then 1 else if scale > 100 then 100 else scale)
      in if offset_hg8 raw \<le> 0 then
           (let mm = fold (\<lambda>k mm. s32 (mm + s32 (adc_sum raw HI_GAIN k)))
                       [0..<nat (num_pixels raw)] 0
            in if num_pixels raw = 0 then None
               else (let offset = cdiv mm (num_pixels raw)
                     in Some (if offset > 32767 then 32767 else offset, scale)))
         else Some (if offset_hg8 raw > 32767 then 32767 else offset_hg8 raw, scale))"

text \<open>
  The test for the narrow encoding of a high-gain amplitude, which the three reduction
  loops share (lines 3372 to 3378, 3560 to 3566 and 3745 to 3751): the flag \<^verbatim>\<open>f8\<close>
  and the value \<^verbatim>\<open>v8\<close>.
\<close>

definition reduce_hg8 :: "int \<Rightarrow> int \<Rightarrow> int \<Rightarrow> int \<Rightarrow> bool \<times> int" where
  "reduce_hg8 amp offset scale half =
     (let v8 = s32 (s32 amp - offset)
      in if v8 \<ge> 0 then
           (let v8 = cdiv (s32 (v8 + half)) scale in (v8 < 255, v8))
         else (False, v8))"

text \<open>
  The choice between the 16-bit and the differential format, and the pair of vectors
  written for low gain (with two gains only) and high gain.
\<close>

definition put_adcsum :: "int \<Rightarrow> int list \<Rightarrow> item \<Rightarrow> item" where
  "put_adcsum ver vec iobuf =
     (if ver \<le> 2 then put_adcsum_as_uint16 vec iobuf else put_adcsum_differential vec iobuf)"

definition put_lg_hg :: "AdcData \<Rightarrow> int \<Rightarrow> int list \<Rightarrow> int list \<Rightarrow> item \<Rightarrow> item" where
  "put_lg_hg raw ver lg hg iobuf =
     put_adcsum ver hg (if num_gains raw \<ge> 2 then put_adcsum ver lg iobuf else iobuf)"

text \<open>
  The local variables of a group of 16 pixels: the three flag words and the values
  collected for the group.
\<close>

record block =
  zbits :: int
  cflags :: int
  bflags :: int
  lgval :: "int list"
  hgval :: "int list"
  hgval8 :: "int list"

definition empty_block :: block where
  "empty_block = \<lparr>zbits = 0, cflags = 0, bflags = 0, lgval = [], hgval = [], hgval8 = []\<rparr>"

text \<open>
  The six loops \<^verbatim>\<open>while ( n-- > 0 )\<close> over the pixels have one shape: the pixel \<open>k\<close> at
  position \<open>j\<close> of its group is taken into the block, and after 16 pixels or the last
  one the block is written and cleared. The two steps are the arguments.
\<close>

fun put_blocks :: "(nat \<Rightarrow> nat \<Rightarrow> block \<Rightarrow> block) \<Rightarrow> (nat \<Rightarrow> nat \<Rightarrow> block \<Rightarrow> item \<Rightarrow> item)
    \<Rightarrow> nat \<Rightarrow> nat \<Rightarrow> nat \<Rightarrow> block \<Rightarrow> item \<Rightarrow> item" where
  "put_blocks pixel flush 0 k j b iobuf = iobuf"
| "put_blocks pixel flush (Suc n) k j b iobuf =
     (let b1 = pixel k j b
      in if Suc j = 16 \<or> n = 0 then
           put_blocks pixel flush n (Suc k) 0 empty_block (flush (Suc k) (Suc j) b1 iobuf)
         else put_blocks pixel flush n (Suc k) (Suc j) b1 iobuf)"

text \<open>Zero suppression 0, data reduction 1 (lines 3311 to 3353).\<close>

definition z0d1_pixel :: "AdcData \<Rightarrow> nat \<Rightarrow> nat \<Rightarrow> block \<Rightarrow> block" where
  "z0d1_pixel raw k j b =
     (if adc_known raw LO_GAIN k AND 0x01 \<noteq> 0 \<and> num_gains raw \<ge> 2 then
        b\<lparr>lgval := lgval b @ [adc_sum raw LO_GAIN k],
          cflags := u16 (cflags b OR push_bit j 1)\<rparr>
      else b)"

definition z0d1_flush :: "AdcData \<Rightarrow> int \<Rightarrow> nat \<Rightarrow> nat \<Rightarrow> block \<Rightarrow> item \<Rightarrow> item" where
  "z0d1_flush raw ver k j b iobuf =
     put_lg_hg raw ver (lgval b) (map (adc_sum raw HI_GAIN) [k - j..<k])
       (put_vector_of_uint16 [cflags b] iobuf)"

text \<open>Zero suppression 0, data reduction 2 (lines 3354 to 3419).\<close>

definition z0d2_pixel :: "AdcData \<Rightarrow> int \<Rightarrow> int \<Rightarrow> int \<Rightarrow> nat \<Rightarrow> nat \<Rightarrow> block \<Rightarrow> block" where
  "z0d2_pixel raw offset scale half k j b =
     (if s32 (adc_sum raw HI_GAIN k) \<ge> threshold raw \<and> num_gains raw \<ge> 2 then
        b\<lparr>lgval := lgval b @ [adc_sum raw LO_GAIN k],
          cflags := u16 (cflags b OR push_bit j 1),
          hgval := hgval b @ [adc_sum raw HI_GAIN k]\<rparr>
      else
        (let (f8, v8) = reduce_hg8 (adc_sum raw HI_GAIN k) offset scale half
         in if f8 then
              b\<lparr>hgval8 := hgval8 b @ [u8 v8], bflags := u16 (bflags b OR push_bit j 1)\<rparr>
            else b\<lparr>hgval := hgval b @ [adc_sum raw HI_GAIN k]\<rparr>))"

definition z0d2_flush :: "AdcData \<Rightarrow> int \<Rightarrow> nat \<Rightarrow> nat \<Rightarrow> block \<Rightarrow> item \<Rightarrow> item" where
  "z0d2_flush raw ver k j b iobuf =
     put_vector_of_uint8 (hgval8 b)
       (put_lg_hg raw ver (lgval b) (hgval b)
         (put_vector_of_uint16 [bflags b] (put_vector_of_uint16 [cflags b] iobuf)))"

text \<open>Zero suppression 1, data reduction 0 (lines 3429 to 3480).\<close>

definition z1d0_pixel :: "AdcData \<Rightarrow> nat \<Rightarrow> nat \<Rightarrow> block \<Rightarrow> block" where
  "z1d0_pixel raw k j b =
     (if significant raw k \<noteq> 0 then
        b\<lparr>zbits := u16 (zbits b OR push_bit j 1),
          lgval := lgval b @ [adc_sum raw LO_GAIN k],
          hgval := hgval b @ [adc_sum raw HI_GAIN k]\<rparr>
      else b)"

definition z1d0_flush :: "AdcData \<Rightarrow> int \<Rightarrow> nat \<Rightarrow> nat \<Rightarrow> block \<Rightarrow> item \<Rightarrow> item" where
  "z1d0_flush raw ver k j b iobuf =
     (let iobuf1 = put_vector_of_uint16 [zbits b] iobuf
      in if zbits b \<noteq> 0 then put_lg_hg raw ver (lgval b) (hgval b) iobuf1 else iobuf1)"

text \<open>Zero suppression 1, data reduction 1 (lines 3482 to 3535).\<close>

definition z1d1_pixel :: "AdcData \<Rightarrow> nat \<Rightarrow> nat \<Rightarrow> block \<Rightarrow> block" where
  "z1d1_pixel raw k j b =
     (if significant raw k \<noteq> 0 then
        (let b1 = b\<lparr>zbits := u16 (zbits b OR push_bit j 1)\<rparr>;
             b2 = (if adc_known raw LO_GAIN k AND 0x01 \<noteq> 0 \<and> num_gains raw \<ge> 2 then
                     b1\<lparr>cflags := u16 (cflags b1 OR push_bit j 1),
                        lgval := lgval b1 @ [adc_sum raw LO_GAIN k]\<rparr>
                   else b1)
         in b2\<lparr>hgval := hgval b2 @ [adc_sum raw HI_GAIN k]\<rparr>)
      else b)"

definition z1d1_flush :: "AdcData \<Rightarrow> int \<Rightarrow> nat \<Rightarrow> nat \<Rightarrow> block \<Rightarrow> item \<Rightarrow> item" where
  "z1d1_flush raw ver k j b iobuf =
     (let iobuf1 = put_vector_of_uint16 [zbits b] iobuf
      in if zbits b \<noteq> 0 then
           put_lg_hg raw ver (lgval b) (hgval b) (put_vector_of_uint16 [cflags b] iobuf1)
         else iobuf1)"

text \<open>Zero suppression 1, data reduction 2 (lines 3539 to 3616).\<close>

definition z1d2_pixel :: "AdcData \<Rightarrow> int \<Rightarrow> int \<Rightarrow> int \<Rightarrow> nat \<Rightarrow> nat \<Rightarrow> block \<Rightarrow> block" where
  "z1d2_pixel raw offset scale half k j b =
     (if significant raw k \<noteq> 0 then
        (let b1 = b\<lparr>zbits := u16 (zbits b OR push_bit j 1)\<rparr>
         in if s32 (adc_sum raw HI_GAIN k) \<ge> threshold raw \<and> num_gains raw \<ge> 2 then
              b1\<lparr>cflags := u16 (cflags b1 OR push_bit j 1),
                 lgval := lgval b1 @ [adc_sum raw LO_GAIN k],
                 hgval := hgval b1 @ [adc_sum raw HI_GAIN k]\<rparr>
            else
              (let (f8, v8) = reduce_hg8 (adc_sum raw HI_GAIN k) offset scale half
               in if f8 then
                    b1\<lparr>hgval8 := hgval8 b1 @ [u8 v8],
                       bflags := u16 (bflags b1 OR push_bit j 1)\<rparr>
                  else b1\<lparr>hgval := hgval b1 @ [adc_sum raw HI_GAIN k]\<rparr>))
      else b)"

definition z1d2_flush :: "AdcData \<Rightarrow> int \<Rightarrow> nat \<Rightarrow> nat \<Rightarrow> block \<Rightarrow> item \<Rightarrow> item" where
  "z1d2_flush raw ver k j b iobuf =
     (let iobuf1 = put_vector_of_uint16 [zbits b] iobuf
      in if zbits b \<noteq> 0 then
           put_vector_of_uint8 (hgval8 b)
             (put_lg_hg raw ver (lgval b) (hgval b)
               (put_vector_of_uint16 [bflags b] (put_vector_of_uint16 [cflags b] iobuf1)))
         else iobuf1)"

text \<open>
  Zero suppression 2: the list of pixels is written with its size, as counts from
  version 4 on and as 16-bit integers before.
\<close>

definition put_pixel_list :: "int \<Rightarrow> int \<Rightarrow> int list \<Rightarrow> item \<Rightarrow> item" where
  "put_pixel_list ver n lst iobuf =
     (if ver \<ge> 4 then put_vector_of_int_scount lst (put_count n iobuf)
      else put_vector_of_int lst (put_short n iobuf))"

text \<open>Zero suppression 2, data reduction 0 (lines 3631 to 3673).\<close>

definition put_sums_z2d0 :: "AdcData \<Rightarrow> int \<Rightarrow> item \<Rightarrow> item" where
  "put_sums_z2d0 raw ver iobuf =
     (let js = [0..<nat (list_size raw)];
          hi = map (\<lambda>j. adc_sum raw HI_GAIN (nat (adc_list raw j))) js;
          lo = map (\<lambda>j. adc_sum raw LO_GAIN (nat (adc_list raw j))) js
      in put_lg_hg raw ver lo hi
           (put_pixel_list ver (list_size raw) (map (adc_list raw) js) iobuf))"

text \<open>
  Zero suppression 2, data reduction 1 (lines 3674 to 3726). The state of the loop is the
  local list \<^verbatim>\<open>adc_list_l\<close> with the markup bits and the low-gain and high-gain values
  collected. \<^verbatim>\<open>adc_list_l\<close> is not initialised by the function: it starts with whatever
  the stack holds, which is an argument of the model. For a pixel with a known low gain
  the source stores the pixel at \<^verbatim>\<open>adc_list_l[mlg]\<close>.
\<close>

fun z2d1_loop :: "AdcData \<Rightarrow> int \<Rightarrow> nat \<Rightarrow> nat \<Rightarrow> (nat \<Rightarrow> int) \<times> int list \<times> int list
    \<Rightarrow> (nat \<Rightarrow> int) \<times> int list \<times> int list" where
  "z2d1_loop raw ver 0 j st = st"
| "z2d1_loop raw ver (Suc m) j (adc_list_l, lo, hi) =
     (let k = nat (adc_list raw j)
      in z2d1_loop raw ver m (Suc j)
           (if adc_known raw LO_GAIN k AND 0x01 \<noteq> 0 \<and> num_gains raw \<ge> 2 then
              (adc_list_l(length lo := adc_list raw j),
               lo @ [adc_sum raw LO_GAIN k],
               hi @ [adc_sum raw HI_GAIN k])
            else
              (adc_list_l(j := adc_list raw j OR (if ver \<ge> 4 then 0x200000 else 0x2000)),
               lo,
               hi @ [adc_sum raw HI_GAIN k])))"

definition put_sums_z2d1 :: "(nat \<Rightarrow> int) \<Rightarrow> AdcData \<Rightarrow> int \<Rightarrow> item \<Rightarrow> item" where
  "put_sums_z2d1 stack raw ver iobuf =
     (let (adc_list_l, lo, hi) = z2d1_loop raw ver (nat (list_size raw)) 0 (stack, [], [])
      in put_lg_hg raw ver lo hi
           (put_pixel_list ver (list_size raw)
              (map adc_list_l [0..<nat (list_size raw)]) iobuf))"

text \<open>Zero suppression 2, data reduction 2 (lines 3727 to 3801).\<close>

fun z2d2_loop :: "AdcData \<Rightarrow> int \<Rightarrow> int \<Rightarrow> int \<Rightarrow> int \<Rightarrow> nat \<Rightarrow> nat
    \<Rightarrow> (nat \<Rightarrow> int) \<times> int list \<times> int list \<times> int list
    \<Rightarrow> (nat \<Rightarrow> int) \<times> int list \<times> int list \<times> int list" where
  "z2d2_loop raw ver offset scale half 0 j st = st"
| "z2d2_loop raw ver offset scale half (Suc m) j (adc_list_l, lo, hi, hg8) =
     (let k = nat (adc_list raw j)
      in z2d2_loop raw ver offset scale half m (Suc j)
           (if s32 (adc_sum raw HI_GAIN k) \<ge> threshold raw \<and> num_gains raw \<ge> 2 then
              (adc_list_l(j := adc_list raw j),
               lo @ [adc_sum raw LO_GAIN k],
               hi @ [adc_sum raw HI_GAIN k],
               hg8)
            else
              (let (f8, v8) = reduce_hg8 (adc_sum raw HI_GAIN k) offset scale half
               in if f8 then
                    (adc_list_l(j := adc_list raw j OR (if ver \<ge> 4 then 0x600000 else 0x6000)),
                     lo, hi, hg8 @ [u8 v8])
                  else
                    (adc_list_l(j := adc_list raw j OR (if ver \<ge> 4 then 0x200000 else 0x2000)),
                     lo, hi @ [adc_sum raw HI_GAIN k], hg8))))"

definition put_sums_z2d2 :: "(nat \<Rightarrow> int) \<Rightarrow> AdcData \<Rightarrow> int \<Rightarrow> int \<Rightarrow> int \<Rightarrow> int \<Rightarrow> item \<Rightarrow> item" where
  "put_sums_z2d2 stack raw ver offset scale half iobuf =
     (let (adc_list_l, lo, hi, hg8) =
            z2d2_loop raw ver offset scale half (nat (list_size raw)) 0 (stack, [], [], [])
      in put_vector_of_uint8 hg8
           (put_lg_hg raw ver lo hi
              (put_pixel_list ver (list_size raw)
                 (map adc_list_l [0..<nat (list_size raw)]) iobuf)))"

text \<open>
  The \<^verbatim>\<open>switch\<close> over the two modes, lines 3289 to 3810. A mode without a case runs
  into \<^verbatim>\<open>assert(0)\<close>, which ends the program: the result is \<open>None\<close>.
\<close>

definition put_sums :: "(nat \<Rightarrow> int) \<Rightarrow> AdcData \<Rightarrow> int \<Rightarrow> int \<Rightarrow> int \<Rightarrow> int \<Rightarrow> int \<Rightarrow> int
    \<Rightarrow> item \<Rightarrow> item option" where
  "put_sums stack raw ver zero_sup data_red offset scale half iobuf =
     (let n = nat (num_pixels raw)
      in if zero_sup = 0 then
           (if data_red = 0 then
              Some (fold (\<lambda>i. put_adcsum ver (map (adc_sum raw i) [0..<n]))
                      [0..<nat (num_gains raw)] iobuf)
            else if data_red = 1 then
              Some (put_blocks (z0d1_pixel raw) (z0d1_flush raw ver) n 0 0 empty_block iobuf)
            else if data_red = 2 then
              Some (put_blocks (z0d2_pixel raw offset scale half) (z0d2_flush raw ver)
                      n 0 0 empty_block iobuf)
            else None)
         else if zero_sup = 1 then
           (if data_red = 0 then
              Some (put_blocks (z1d0_pixel raw) (z1d0_flush raw ver) n 0 0 empty_block iobuf)
            else if data_red = 1 then
              Some (put_blocks (z1d1_pixel raw) (z1d1_flush raw ver) n 0 0 empty_block iobuf)
            else if data_red = 2 then
              Some (put_blocks (z1d2_pixel raw offset scale half) (z1d2_flush raw ver)
                      n 0 0 empty_block iobuf)
            else None)
         else if zero_sup = 2 then
           (if data_red = 0 then Some (put_sums_z2d0 raw ver iobuf)
            else if data_red = 1 then Some (put_sums_z2d1 stack raw ver iobuf)
            else if data_red = 2 then Some (put_sums_z2d2 stack raw ver offset scale half iobuf)
            else None)
         else None)"

text \<open>
  The start of the record, lines 3244 to 3258: the header, the parameters of the
  reduction from version 4 on and the counts of pixels and gains.
\<close>

definition put_sums_head :: "AdcData \<Rightarrow> int \<Rightarrow> int \<Rightarrow> int \<Rightarrow> item" where
  "put_sums_head raw ver zero_sup data_red =
     (let item_header = \<lparr>type = IO_TYPE_HESS_TELADCSUM, version = ver,
                         ident = sums_flags raw ver zero_sup data_red\<rparr>;
          it0 = put_item_begin item_header;
          it1 = (if ver \<ge> 4 \<and> data_red_mode raw = 2 then
                   put_scount32 (scale_hg8 raw)
                     (put_scount32 (offset_hg8 raw) (put_scount32 (threshold raw) it0))
                 else it0)
      in if ver \<ge> 2 then put_short (num_gains raw) (put_long (num_pixels raw) it1) else it1)"

text \<open>
  The offset and the scale in effect, written for data reduction 2 (lines 3260 to 3283);
  both are 0 otherwise.
\<close>

definition put_sums_hg8 :: "AdcData \<Rightarrow> int \<Rightarrow> item \<Rightarrow> (int \<times> int \<times> item) option" where
  "put_sums_hg8 raw data_red iobuf =
     (if data_red = 2 then
        (case sums_hg8 raw of
           None \<Rightarrow> None
         | Some (offset, scale) \<Rightarrow>
             Some (offset, scale, put_short scale (put_short offset iobuf)))
      else Some (0, 0, iobuf))"

text \<open>
  The function. Its result is the return value, the buffer and the data, in which the
  pixel list may have been filled in; \<open>None\<close> stands for a run that the program does
  not survive. The argument \<open>stack\<close> is the content of the uninitialised local list.
\<close>

definition write_hess_teladc_sums ::
    "(nat \<Rightarrow> int) \<Rightarrow> IO_BUFFER \<Rightarrow> AdcData \<Rightarrow> (int \<times> IO_BUFFER \<times> AdcData) option" where
  "write_hess_teladc_sums stack iobuf raw =
     (if known raw = 0 then Some (0, iobuf, raw)
      else
        (let ver = sums_version raw;
             (zero_sup0, data_red) = sums_modes raw ver
         in if sums_unsupported raw ver zero_sup0 data_red then Some (-1, iobuf, raw)
            else
              (let (raw1, zero_sup) = sums_select raw zero_sup0
               in case put_sums_hg8 raw1 data_red (put_sums_head raw1 ver zero_sup data_red) of
                    None \<Rightarrow> None
                  | Some (offset, scale, it3) \<Rightarrow>
                      (case put_sums stack raw1 ver zero_sup data_red offset scale
                              (cdiv scale 2) it3 of
                         None \<Rightarrow> None
                       | Some it4 \<Rightarrow>
                           (let (rc, iobuf1) = put_item_end iobuf it4
                            in Some (rc, iobuf1, raw1))))))"

section \<open>\<^verbatim>\<open>read_hess_teladc_sums\<close>\<close>

text \<open>Assignments to one element of the arrays of the data.\<close>

definition set_significant :: "nat \<Rightarrow> int \<Rightarrow> AdcData \<Rightarrow> AdcData" where
  "set_significant p v raw = raw\<lparr>significant := (significant raw)(p := v)\<rparr>"

definition set_known :: "nat \<Rightarrow> nat \<Rightarrow> int \<Rightarrow> AdcData \<Rightarrow> AdcData" where
  "set_known g p v raw = raw\<lparr>adc_known := (adc_known raw)(g := (adc_known raw g)(p := v))\<rparr>"

definition set_sum :: "nat \<Rightarrow> nat \<Rightarrow> int \<Rightarrow> AdcData \<Rightarrow> AdcData" where
  "set_sum g p v raw = raw\<lparr>adc_sum := (adc_sum raw)(g := (adc_sum raw g)(p := v))\<rparr>"

text \<open>\<open>fill a n v\<close>: the first \<open>n\<close> elements of the array \<open>a\<close> set to \<open>v\<close>.\<close>

definition fill :: "(nat \<Rightarrow> int) \<Rightarrow> nat \<Rightarrow> int \<Rightarrow> (nat \<Rightarrow> int)" where
  "fill a n v = (\<lambda>i. if i < n then v else a i)"

text \<open>
  The fields packed into the identifier and the counts at the start of the data, lines
  3854 to 3885. The version of a record is not negative.
\<close>

definition get_sums_header :: "IO_ITEM_HEADER \<Rightarrow> AdcData \<Rightarrow> token list
    \<Rightarrow> (AdcData \<times> token list) option" where
  "get_sums_header item_header raw iobuf =
     (let flags = u32 (ident item_header);
          raw1 = raw\<lparr>zero_sup_mode := flags AND 0x1f,
                     data_red_mode := drop_bit 5 flags AND 0x1f\<rparr>
      in case (if version item_header \<ge> 4 \<and> data_red_mode raw1 = 2 then
                 (case get_scount32 iobuf of
                    None \<Rightarrow> None
                  | Some (t, iobuf1) \<Rightarrow>
                      (case get_scount32 iobuf1 of
                         None \<Rightarrow> None
                       | Some (off, iobuf2) \<Rightarrow>
                           (case get_scount32 iobuf2 of
                              None \<Rightarrow> None
                            | Some (sc, iobuf3) \<Rightarrow>
                                Some (raw1\<lparr>threshold := t, offset_hg8 := off,
                                           scale_hg8 := sc\<rparr>, iobuf3))))
               else Some (raw1, iobuf)) of
           None \<Rightarrow> None
         | Some (raw2, iobuf4) \<Rightarrow>
             (let raw3 = raw2\<lparr>list_known := drop_bit 10 flags AND 0x01\<rparr>
              in case (if version item_header = 0 then
                         Some (raw3\<lparr>tel_id := drop_bit 25 flags AND 0x1f,
                                    num_pixels := drop_bit 12 flags AND 0x07ff,
                                    num_gains := drop_bit 23 flags AND 0x03\<rparr>, iobuf4)
                       else if version item_header = 1 then
                         Some (raw3\<lparr>tel_id := drop_bit 25 flags AND 0x1f,
                                    num_pixels := drop_bit 12 flags AND 0x0fff,
                                    num_gains := (if drop_bit 24 flags AND 0x01 \<noteq> 0 then 2 else 1)\<rparr>,
                               iobuf4)
                       else
                         (case get_long iobuf4 of
                            None \<Rightarrow> None
                          | Some (np, iobuf5) \<Rightarrow>
                              (case get_short iobuf5 of
                                 None \<Rightarrow> None
                               | Some (ng, iobuf6) \<Rightarrow>
                                   Some (raw3\<lparr>tel_id := drop_bit 12 flags AND 0xffff,
                                              num_pixels := np, num_gains := ng\<rparr>, iobuf6)))) of
                   None \<Rightarrow> None
                 | Some (raw4, iobuf7) \<Rightarrow> Some (raw4\<lparr>num_samples := 0\<rparr>, iobuf7)))"

text \<open>The test "Invalid raw data block is skipped", lines 3887 to 3895.\<close>

definition sums_invalid :: "limits \<Rightarrow> AdcData \<Rightarrow> bool" where
  "sums_invalid lim raw \<longleftrightarrow>
     num_pixels raw > H_MAX_PIX lim \<or>
     num_gains raw > H_MAX_GAINS \<or>
     (num_pixels raw \<ge> 32768 \<and> zero_sup_mode raw > 1) \<or>
     zero_sup_mode raw > 2 \<or>
     data_red_mode raw > 2"

text \<open>
  The parameters of the 8-bit reduction in the data, lines 3905 to 3911: the data with the
  two fields set, the local \<^verbatim>\<open>offset_hg8\<close> and \<^verbatim>\<open>scale_hg8\<close> (both
  \<^verbatim>\<open>uint16_t\<close>, initially 0 and 1) and the rest of the data.
\<close>

definition get_sums_hg8 :: "AdcData \<Rightarrow> token list \<Rightarrow> (AdcData \<times> int \<times> int \<times> token list) option" where
  "get_sums_hg8 raw iobuf =
     (if data_red_mode raw = 2 then
        (case get_short iobuf of
           None \<Rightarrow> None
         | Some (off, iobuf1) \<Rightarrow>
             (case get_short iobuf1 of
                None \<Rightarrow> None
              | Some (sc, iobuf2) \<Rightarrow>
                  Some (raw\<lparr>offset_hg8 := u16 off, scale_hg8 := u16 sc\<rparr>,
                        u16 off, (if u16 sc \<le> 0 then 1 else u16 sc), iobuf2)))
      else Some (raw, 0, 1, iobuf))"

text \<open>
  The initial values of the flags and the sums, lines 3916 to 3943. A negative pixel
  count as the size of a \<^verbatim>\<open>memset\<close> is a size beyond the address space, which the
  program does not survive: the result is \<open>None\<close>.
\<close>

definition sums_init :: "AdcData \<Rightarrow> AdcData option" where
  "sums_init raw =
     (let k = (if zero_sup_mode raw = 0 \<and> data_red_mode raw = 0 then 1 else 0);
          n = nat (num_pixels raw);
          gains = (\<lambda>g. int g < num_gains raw)
      in if num_pixels raw < 0 \<and> (k = 0 \<or> 0 < num_gains raw) then None
         else
           Some (raw\<lparr>significant := fill (significant raw) n k,
                      adc_known := (\<lambda>g. if gains g then fill (adc_known raw g) n k
                                         else adc_known raw g),
                      adc_sum := (\<lambda>g. if gains g then fill (adc_sum raw g) n 0
                                       else adc_sum raw g)\<rparr>))"

text \<open>
  The amplitude of a pixel with the narrow encoding, stored as \<^verbatim>\<open>uint32_t\<close>:
  \<^verbatim>\<open>hgval8[mhg8++] * scale_hg8 + offset_hg8\<close> (lines 4095, 4235 and 4338).
\<close>

definition expand_hg8 :: "int \<Rightarrow> int \<Rightarrow> int \<Rightarrow> int" where
  "expand_hg8 v8 scale offset = u32 (v8 * scale + offset)"

text \<open>The choice between the 16-bit and the differential format on reading.\<close>

definition get_adcsum :: "int \<Rightarrow> int \<Rightarrow> token list \<Rightarrow> (int list \<times> token list) option" where
  "get_adcsum ver n iobuf =
     (if ver < 3 then get_adcsum_as_uint16 n iobuf
      else get_vector_of_uint32_scount_differential n iobuf)"

text \<open>
  The low-gain vector is read for two gains only. With one gain the local array keeps
  what it held, which the model leaves unspecified (an empty list, read beyond its end).
\<close>

definition get_lg :: "AdcData \<Rightarrow> int \<Rightarrow> int \<Rightarrow> token list \<Rightarrow> (int list \<times> token list) option" where
  "get_lg raw ver n iobuf =
     (if num_gains raw \<ge> 2 then get_adcsum ver n iobuf else Some ([], iobuf))"

text \<open>A flag word: \<^verbatim>\<open>get_vector_of_uint16\<close> for a vector of one element.\<close>

definition get_flag_word :: "token list \<Rightarrow> (int \<times> token list) option" where
  "get_flag_word iobuf =
     (case get_vector_of_uint16 1 iobuf of
        None \<Rightarrow> None
      | Some (vs, iobuf1) \<Rightarrow> Some (hd vs, iobuf1))"

text \<open>Zero suppression 0, data reduction 0 (lines 3963 to 3975), for the gains \<open>gs\<close>.\<close>

fun get_sums_z0d0 :: "int \<Rightarrow> nat list \<Rightarrow> AdcData \<Rightarrow> token list \<Rightarrow> (AdcData \<times> token list) option" where
  "get_sums_z0d0 ver [] raw iobuf = Some (raw, iobuf)"
| "get_sums_z0d0 ver (i # gs) raw iobuf =
     (case get_adcsum ver (num_pixels raw) iobuf of
        None \<Rightarrow> None
      | Some (vs, iobuf1) \<Rightarrow>
          get_sums_z0d0 ver gs
            (raw\<lparr>adc_sum := (adc_sum raw)(i := store (adc_sum raw i) 0 vs)\<rparr>) iobuf1)"

text \<open>
  The loops \<^verbatim>\<open>while ( k < raw->num_pixels )\<close> over the groups of 16 pixels: the group
  of \<open>n\<close> pixels from \<open>k\<close> on is read by the argument \<open>grp\<close>.
\<close>

function get_blocks :: "(nat \<Rightarrow> nat \<Rightarrow> AdcData \<Rightarrow> token list \<Rightarrow> (AdcData \<times> token list) option)
    \<Rightarrow> nat \<Rightarrow> nat \<Rightarrow> AdcData \<Rightarrow> token list \<Rightarrow> (AdcData \<times> token list) option" where
  "get_blocks grp npix k raw iobuf =
     (if k < npix then
        (case grp k (if k + 16 \<le> npix then 16 else npix - k) raw iobuf of
           None \<Rightarrow> None
         | Some (raw1, iobuf1) \<Rightarrow>
             get_blocks grp npix (k + (if k + 16 \<le> npix then 16 else npix - k)) raw1 iobuf1)
      else Some (raw, iobuf))"
  by pat_completeness auto
termination
  by (relation "measure (\<lambda>(grp, npix, k, raw, iobuf). npix - k)") auto

text \<open>
  Zero suppression 0, data reduction 1 (lines 3977 to 4032). \<open>z0d1_store\<close> is the loop
  of lines 4015 to 4029 over the positions \<open>js\<close> of the group, with the counter
  \<^verbatim>\<open>mlg\<close>.
\<close>

fun z0d1_store :: "int \<Rightarrow> int list \<Rightarrow> nat \<Rightarrow> nat list \<Rightarrow> nat \<Rightarrow> AdcData \<Rightarrow> AdcData" where
  "z0d1_store cf lg k [] mlg raw = raw"
| "z0d1_store cf lg k (j # js) mlg raw =
     (if bit cf j then
        z0d1_store cf lg k js (Suc mlg)
          (set_significant (k + j) 1 (set_known HI_GAIN (k + j) 1
             (set_known LO_GAIN (k + j) 1 (set_sum LO_GAIN (k + j) (lg ! mlg) raw))))
      else
        z0d1_store cf lg k js mlg
          (set_significant (k + j) 1 (set_known HI_GAIN (k + j) 1
             (set_known LO_GAIN (k + j) 0 (set_sum LO_GAIN (k + j) 0 raw)))))"

definition get_z0d1_group :: "int \<Rightarrow> nat \<Rightarrow> nat \<Rightarrow> AdcData \<Rightarrow> token list
    \<Rightarrow> (AdcData \<times> token list) option" where
  "get_z0d1_group ver k n raw iobuf =
     (case get_flag_word iobuf of
        None \<Rightarrow> None
      | Some (cf, iobuf1) \<Rightarrow>
          (let mlg = length (filter (bit cf) [0..<n])
           in case get_lg raw ver (int mlg) iobuf1 of
                None \<Rightarrow> None
              | Some (lg, iobuf2) \<Rightarrow>
                  (case get_adcsum ver (int n) iobuf2 of
                     None \<Rightarrow> None
                   | Some (hg, iobuf3) \<Rightarrow>
                       Some (z0d1_store cf lg k [0..<n] 0
                               (raw\<lparr>adc_sum := (adc_sum raw)
                                      (HI_GAIN := store (adc_sum raw HI_GAIN) k hg)\<rparr>),
                             iobuf3))))"

text \<open>
  Zero suppression 0, data reduction 2 (lines 4033 to 4104). The state of the loop of
  lines 4083 to 4101 is the three counters \<^verbatim>\<open>mlg\<close>, \<^verbatim>\<open>mhg16\<close> and \<^verbatim>\<open>mhg8\<close>.
\<close>

fun z0d2_store :: "int \<Rightarrow> int \<Rightarrow> int list \<Rightarrow> int list \<Rightarrow> int list \<Rightarrow> int \<Rightarrow> int \<Rightarrow> nat \<Rightarrow> nat list
    \<Rightarrow> nat \<times> nat \<times> nat \<Rightarrow> AdcData \<Rightarrow> AdcData" where
  "z0d2_store cf bf lg hg hg8 scale offset k [] m raw = raw"
| "z0d2_store cf bf lg hg hg8 scale offset k (j # js) (mlg, mhg16, mhg8) raw =
     (if bit cf j then
        z0d2_store cf bf lg hg hg8 scale offset k js (Suc mlg, Suc mhg16, mhg8)
          (set_significant (k + j) 1 (set_known HI_GAIN (k + j) 1
             (set_sum HI_GAIN (k + j) (hg ! mhg16)
                (set_known LO_GAIN (k + j) 1 (set_sum LO_GAIN (k + j) (lg ! mlg) raw)))))
      else if bit bf j then
        z0d2_store cf bf lg hg hg8 scale offset k js (mlg, mhg16, Suc mhg8)
          (set_significant (k + j) 1 (set_known HI_GAIN (k + j) 1
             (set_sum HI_GAIN (k + j) (expand_hg8 (hg8 ! mhg8) scale offset) raw)))
      else
        z0d2_store cf bf lg hg hg8 scale offset k js (mlg, Suc mhg16, mhg8)
          (set_significant (k + j) 1 (set_known HI_GAIN (k + j) 1
             (set_sum HI_GAIN (k + j) (hg ! mhg16) raw))))"

definition get_z0d2_group :: "int \<Rightarrow> int \<Rightarrow> int \<Rightarrow> nat \<Rightarrow> nat \<Rightarrow> AdcData \<Rightarrow> token list
    \<Rightarrow> (AdcData \<times> token list) option" where
  "get_z0d2_group ver scale offset k n raw iobuf =
     (case get_flag_word iobuf of
        None \<Rightarrow> None
      | Some (cf, iobuf1) \<Rightarrow>
          (case get_flag_word iobuf1 of
             None \<Rightarrow> None
           | Some (bf, iobuf2) \<Rightarrow>
               (let mlg = length (filter (bit cf) [0..<n]);
                    mhg8 = length (filter (\<lambda>j. \<not> bit cf j \<and> bit bf j) [0..<n]);
                    mhg16 = n - mhg8
                in case get_lg raw ver (int mlg) iobuf2 of
                     None \<Rightarrow> None
                   | Some (lg, iobuf3) \<Rightarrow>
                       (case get_adcsum ver (int mhg16) iobuf3 of
                          None \<Rightarrow> None
                        | Some (hg, iobuf4) \<Rightarrow>
                            (case get_vector_of_uint8 (int mhg8) iobuf4 of
                               None \<Rightarrow> None
                             | Some (hg8, iobuf5) \<Rightarrow>
                                 Some (z0d2_store cf bf lg hg hg8 scale offset k [0..<n]
                                         (0, 0, 0) raw, iobuf5))))))"

text \<open>
  Zero suppression 1, all data reductions (lines 4115 to 4246). In the loop of lines 4207
  to 4241 a pixel without its bit in \<^verbatim>\<open>zbits\<close> is left as it is.
\<close>

fun z1_store :: "int \<Rightarrow> int \<Rightarrow> int \<Rightarrow> int \<Rightarrow> int list \<Rightarrow> int list \<Rightarrow> int list \<Rightarrow> int \<Rightarrow> int \<Rightarrow> nat
    \<Rightarrow> nat list \<Rightarrow> nat \<times> nat \<times> nat \<Rightarrow> AdcData \<Rightarrow> AdcData" where
  "z1_store dr zb cf bf lg hg hg8 scale offset k [] m raw = raw"
| "z1_store dr zb cf bf lg hg hg8 scale offset k (j # js) (mlg, mhg16, mhg8) raw =
     (if bit zb j then
        (if dr < 1 \<or> bit cf j then
           z1_store dr zb cf bf lg hg hg8 scale offset k js (Suc mlg, Suc mhg16, mhg8)
             (set_known HI_GAIN (k + j) 1 (set_known LO_GAIN (k + j) 1
                (set_sum HI_GAIN (k + j) (hg ! mhg16)
                   (set_sum LO_GAIN (k + j) (lg ! mlg)
                      (set_significant (k + j) 1 raw)))))
         else if dr = 2 \<and> bit bf j then
           z1_store dr zb cf bf lg hg hg8 scale offset k js (mlg, mhg16, Suc mhg8)
             (set_known HI_GAIN (k + j) 1
                (set_sum HI_GAIN (k + j) (expand_hg8 (hg8 ! mhg8) scale offset)
                   (set_sum LO_GAIN (k + j) 0 (set_significant (k + j) 1 raw))))
         else
           z1_store dr zb cf bf lg hg hg8 scale offset k js (mlg, Suc mhg16, mhg8)
             (set_known HI_GAIN (k + j) 1
                (set_sum HI_GAIN (k + j) (hg ! mhg16)
                   (set_sum LO_GAIN (k + j) 0 (set_significant (k + j) 1 raw)))))
      else z1_store dr zb cf bf lg hg hg8 scale offset k js (mlg, mhg16, mhg8) raw)"

definition get_z1_group :: "int \<Rightarrow> int \<Rightarrow> int \<Rightarrow> nat \<Rightarrow> nat \<Rightarrow> AdcData \<Rightarrow> token list
    \<Rightarrow> (AdcData \<times> token list) option" where
  "get_z1_group ver scale offset k n raw iobuf =
     (case get_flag_word iobuf of
        None \<Rightarrow> None
      | Some (zb, iobuf1) \<Rightarrow>
          if zb > 0 then
            (let dr = data_red_mode raw;
                 m = length (filter (bit zb) [0..<n])
             in case (if dr \<ge> 1 then
                        (case get_flag_word iobuf1 of
                           None \<Rightarrow> None
                         | Some (cf, iobuf2) \<Rightarrow>
                             (if dr = 2 then
                                (case get_flag_word iobuf2 of
                                   None \<Rightarrow> None
                                 | Some (bf, iobuf3) \<Rightarrow> Some (cf, bf, iobuf3))
                              else Some (cf, 0, iobuf2)))
                      else Some (0, 0, iobuf1)) of
                  None \<Rightarrow> None
                | Some (cf, bf, iobuf4) \<Rightarrow>
                    (let mlg = (if dr \<ge> 1 then
                                  length (filter (\<lambda>j. bit zb j \<and> bit cf j) [0..<n])
                                else m);
                         mhg8 = (if dr = 2 then
                                   length (filter (\<lambda>j. bit zb j \<and> \<not> bit cf j \<and> bit bf j) [0..<n])
                                 else 0);
                         mhg16 = m - mhg8
                     in if m > 0 then
                          (case get_lg raw ver (int mlg) iobuf4 of
                             None \<Rightarrow> None
                           | Some (lg, iobuf5) \<Rightarrow>
                               (case get_adcsum ver (int mhg16) iobuf5 of
                                  None \<Rightarrow> None
                                | Some (hg, iobuf6) \<Rightarrow>
                                    (case get_vector_of_uint8 (int mhg8) iobuf6 of
                                       None \<Rightarrow> None
                                     | Some (hg8, iobuf7) \<Rightarrow>
                                         Some (z1_store dr zb cf bf lg hg hg8 scale offset k
                                                 [0..<n] (0, 0, 0) raw, iobuf7))))
                        else Some (raw, iobuf4)))
          else Some (raw, iobuf1))"

text \<open>
  Zero suppression 2, all data reductions (lines 4263 to 4357). An entry of the list on
  the wire is split into the pixel and the two markup bits \<^verbatim>\<open>without_lg\<close> and
  \<^verbatim>\<open>reduced_width\<close> (lines 4279 to 4290). The source tests neither the size of the
  list nor its pixels: a list of more than \<^verbatim>\<open>H_MAX_PIX\<close> entries overruns the local
  arrays, and a pixel at or beyond \<^verbatim>\<open>H_MAX_PIX\<close> is stored outside the arrays of the
  data. Both have the result \<open>None\<close>.
\<close>

definition z2_entry :: "int \<Rightarrow> int \<Rightarrow> int \<times> bool \<times> bool" where
  "z2_entry ver e =
     (if ver \<ge> 4 then (e AND 0x1fffff, e AND 0x200000 \<noteq> 0, e AND 0x400000 \<noteq> 0)
      else (e AND 0x1fff, e AND 0x2000 \<noteq> 0, e AND 0x4000 \<noteq> 0))"

fun z2_store :: "int list \<Rightarrow> int list \<Rightarrow> int list \<Rightarrow> int \<Rightarrow> int \<Rightarrow> (int \<times> bool \<times> bool) list
    \<Rightarrow> nat \<times> nat \<times> nat \<Rightarrow> AdcData \<Rightarrow> AdcData" where
  "z2_store lo hi hg8 scale offset [] m raw = raw"
| "z2_store lo hi hg8 scale offset ((e, without_lg, reduced_width) # es) (mlg, mhg16, mhg8) raw =
     (let k = nat e;
          raw1 = set_significant k 1 raw;
          raw2 = (if reduced_width then set_sum HI_GAIN k (expand_hg8 (hg8 ! mhg8) scale offset) raw1
                  else set_sum HI_GAIN k (hi ! mhg16) raw1);
          raw3 = set_known HI_GAIN k 1 raw2;
          raw4 = (if num_gains raw \<le> 1 then set_known LO_GAIN k 0 raw3
                  else if without_lg then set_known LO_GAIN k 0 (set_sum LO_GAIN k 0 raw3)
                  else set_known LO_GAIN k 1 (set_sum LO_GAIN k (lo ! mlg) raw3))
      in z2_store lo hi hg8 scale offset es
           (if num_gains raw \<le> 1 \<or> without_lg then mlg else Suc mlg,
            if reduced_width then mhg16 else Suc mhg16,
            if reduced_width then Suc mhg8 else mhg8)
           raw4)"

definition get_sums_z2 :: "limits \<Rightarrow> int \<Rightarrow> int \<Rightarrow> int \<Rightarrow> AdcData \<Rightarrow> token list
    \<Rightarrow> (AdcData \<times> token list) option" where
  "get_sums_z2 lim ver scale offset raw iobuf =
     (case (if ver \<ge> 4 then
              (case get_count iobuf of
                 None \<Rightarrow> None
               | Some (n, iobuf1) \<Rightarrow>
                   (case get_vector_of_int_scount n iobuf1 of
                      None \<Rightarrow> None
                    | Some (lst, iobuf2) \<Rightarrow> Some (n, lst, iobuf2)))
            else
              (case get_short iobuf of
                 None \<Rightarrow> None
               | Some (n, iobuf1) \<Rightarrow>
                   (case get_vector_of_int n iobuf1 of
                      None \<Rightarrow> None
                    | Some (lst, iobuf2) \<Rightarrow> Some (n, lst, iobuf2)))) of
        None \<Rightarrow> None
      | Some (n, adc_list_l, iobuf3) \<Rightarrow>
          if n > H_MAX_PIX lim \<or> list_ex (\<lambda>e. fst (z2_entry ver e) \<ge> H_MAX_PIX lim) adc_list_l
          then None
          else
          (let es = map (z2_entry ver) adc_list_l;
               raw1 = raw\<lparr>list_size := n, adc_list := store (adc_list raw) 0 (map fst es)\<rparr>;
               mhg8 = length (filter (\<lambda>(e, without_lg, reduced_width). reduced_width) es);
               mhg16 = length es - mhg8;
               mlg = length (filter (\<lambda>(e, without_lg, reduced_width).
                               \<not> reduced_width \<and> \<not> (num_gains raw < 2 \<or> without_lg)) es)
           in case (if ver < 2 then
                      (case (if num_gains raw \<ge> 2 then get_adcsum_as_uint16 (int mlg) iobuf3
                             else Some ([], iobuf3)) of
                         None \<Rightarrow> None
                       | Some (lo, iobuf4) \<Rightarrow>
                           (case get_adcsum_as_uint16 (int mhg16) iobuf4 of
                              None \<Rightarrow> None
                            | Some (hi, iobuf5) \<Rightarrow> Some (lo, hi, iobuf5)))
                    else
                      (case (if num_gains raw \<ge> 2 then get_adcsum_differential (int mlg) iobuf3
                             else Some ([], iobuf3)) of
                         None \<Rightarrow> None
                       | Some (lo, iobuf4) \<Rightarrow>
                           (case get_adcsum_differential (int mhg16) iobuf4 of
                              None \<Rightarrow> None
                            | Some (hi, iobuf5) \<Rightarrow> Some (lo, hi, iobuf5)))) of
                None \<Rightarrow> None
              | Some (lo, hi, iobuf6) \<Rightarrow>
                  (case get_vector_of_uint8 (int mhg8) iobuf6 of
                     None \<Rightarrow> None
                   | Some (hg8, iobuf7) \<Rightarrow>
                       Some (z2_store lo hi hg8 scale offset es (0, 0, 0) raw1, iobuf7))))"

text \<open>
  The \<^verbatim>\<open>switch\<close> over the modes of the record, lines 3949 to 4367. The test of line
  3887 leaves no mode without a case.
\<close>

definition get_sums :: "limits \<Rightarrow> int \<Rightarrow> int \<Rightarrow> int \<Rightarrow> AdcData \<Rightarrow> token list
    \<Rightarrow> (AdcData \<times> token list) option" where
  "get_sums lim ver scale offset raw iobuf =
     (let n = nat (num_pixels raw)
      in if zero_sup_mode raw = 0 then
           (if data_red_mode raw = 0 then
              get_sums_z0d0 ver [0..<nat (num_gains raw)] raw iobuf
            else if data_red_mode raw = 1 then
              get_blocks (get_z0d1_group ver) n 0 raw iobuf
            else if data_red_mode raw = 2 then
              get_blocks (get_z0d2_group ver scale offset) n 0 raw iobuf
            else None)
         else if zero_sup_mode raw = 1 then
           (if data_red_mode raw = 0 \<or> data_red_mode raw = 1 \<or> data_red_mode raw = 2 then
              get_blocks (get_z1_group ver scale offset) n 0 raw iobuf
            else None)
         else if zero_sup_mode raw = 2 then
           (if data_red_mode raw = 0 \<or> data_red_mode raw = 1 \<or> data_red_mode raw = 2 then
              get_sums_z2 lim ver scale offset raw iobuf
            else None)
         else None)"

text \<open>
  The function. Its result is the return value, the buffer and the data; \<open>None\<close>
  stands for a read outside the contract of the primitive codec or a run that the program
  does not survive.
\<close>

definition read_hess_teladc_sums ::
    "limits \<Rightarrow> IO_BUFFER \<Rightarrow> AdcData \<Rightarrow> (int \<times> IO_BUFFER \<times> AdcData) option" where
  "read_hess_teladc_sums lim iobuf raw0 =
     (let raw = raw0\<lparr>known := 0, num_pixels := 0\<rparr>;
          (rc, item_header, dat) = get_item_begin iobuf IO_TYPE_HESS_TELADCSUM
      in if rc < 0 then Some (rc, iobuf, raw)
         else if version item_header > 4 then Some (-1, snd (get_item_end iobuf), raw)
         else
           (case get_sums_header item_header raw dat of
              None \<Rightarrow> None
            | Some (raw1, dat1) \<Rightarrow>
                if sums_invalid lim raw1 then
                  Some (-1, snd (get_item_end iobuf), raw1\<lparr>num_pixels := 0\<rparr>)
                else
                  (case get_sums_hg8 raw1 dat1 of
                     None \<Rightarrow> None
                   | Some (raw2, offset, scale, dat2) \<Rightarrow>
                       (case sums_init raw2 of
                          None \<Rightarrow> None
                        | Some raw3 \<Rightarrow>
                            (case get_sums lim (version item_header) scale offset raw3 dat2 of
                               None \<Rightarrow> None
                             | Some (raw4, dat3) \<Rightarrow>
                                 (let (rc1, iobuf1) = get_item_end iobuf
                                  in Some (rc1, iobuf1, raw4\<lparr>known := 1\<rparr>)))))))"

section \<open>\<^verbatim>\<open>write_hess_teladc_samples\<close>\<close>

text \<open>
  The list of ranges of significant pixels, lines 4574 to 4601: \<open>s\<close> is the significance
  of the pixel and \<open>sl\<close> the one of the pixel before.
\<close>

definition range_step :: "int \<Rightarrow> nat \<Rightarrow> int \<times> (nat \<times> nat) list \<Rightarrow> int \<times> (nat \<times> nat) list" where
  "range_step s ipix st =
     (case st of (sl, pixel_list) \<Rightarrow>
        if s \<noteq> 0 \<and> s = sl \<and> length pixel_list > 0 then
          (s, butlast pixel_list @ [(fst (last pixel_list), ipix)])
        else if s \<noteq> 0 then (s, pixel_list @ [(ipix, ipix)])
        else (s, pixel_list))"

definition sample_ranges :: "(nat \<Rightarrow> int) \<Rightarrow> nat \<Rightarrow> (nat \<times> nat) list" where
  "sample_ranges sig n = snd (fold (\<lambda>ipix. range_step (sig ipix) ipix) [0..<n] (-1, []))"

text \<open>A list of ranges on the wire, lines 4604 to 4614, and the pixels it stands for.\<close>

definition put_range :: "nat \<times> nat \<Rightarrow> item \<Rightarrow> item" where
  "put_range r iobuf =
     (if fst r = snd r then put_scount (- int (fst r) - 1) iobuf
      else put_scount (int (snd r)) (put_scount (int (fst r)) iobuf))"

definition put_ranges :: "(nat \<times> nat) list \<Rightarrow> item \<Rightarrow> item" where
  "put_ranges pixel_list iobuf = fold put_range pixel_list (put_scount32 (int (length pixel_list)) iobuf)"

definition range_pixels :: "(nat \<times> nat) list \<Rightarrow> nat list" where
  "range_pixels pixel_list = concat (map (\<lambda>r. [fst r..<Suc (snd r)]) pixel_list)"

definition put_traces :: "AdcData \<Rightarrow> nat \<Rightarrow> nat list \<Rightarrow> item \<Rightarrow> item" where
  "put_traces raw igain pixels iobuf =
     fold (\<lambda>ipix. put_adcsample_differential
                    (map (adc_sample raw igain ipix) [0..<nat (num_samples raw)]))
       pixels iobuf"

text \<open>
  The function, lines 4504 to 4674. The branch for a version below 3 is kept as the source
  has it, although the version written is 3 or 4.
\<close>

definition write_hess_teladc_samples :: "IO_BUFFER \<Rightarrow> AdcData \<Rightarrow> int \<times> IO_BUFFER" where
  "write_hess_teladc_samples iobuf raw =
     (let zero_sup0 = drop_bit 5 (zero_sup_mode raw AND 0x20);
          data_red = (if data_red_mode raw AND 0x20 \<noteq> 0 \<and> zero_sup0 \<noteq> 0 then 1 else 0 :: int)
      in if known raw = 0 then (0, iobuf)
         else
           (let ver = (if data_red > 0 then 4 else 3 :: int)
            in if num_pixels raw < 0 \<or> (num_pixels raw > 4095 \<and> ver < 2) \<or>
                  num_gains raw < 1 \<or> num_gains raw > H_MAX_GAINS
               then (-1, iobuf)
               else
                 (let flags0 = (if ver < 2 then
                                  push_bit 12 (num_pixels raw) OR
                                  push_bit 24 (if num_gains raw = 2 then 1 else 0) OR
                                  push_bit 25 (tel_id raw AND 0x1f)
                                else push_bit 12 (tel_id raw AND 0xffff));
                      zero_sup = (if ver < 3 then 0 else zero_sup0);
                      flags1 = flags0 OR (zero_sup AND 0x1f);
                      flags = (if data_red \<noteq> 0 then flags1 OR 0x20 else flags1);
                      it0 = put_item_begin
                              \<lparr>type = IO_TYPE_HESS_TELADCSAMP, version = ver, ident = u32 flags\<rparr>;
                      it1 = (if ver \<ge> 2 then
                               put_short (num_gains raw) (put_long (num_pixels raw) it0)
                             else it0);
                      it2 = put_short (num_samples raw) it1;
                      n = nat (num_pixels raw);
                      gains = [0..<nat (num_gains raw)]
                  in if zero_sup \<noteq> 0 then
                       (let pixel_list = sample_ranges (\<lambda>ipix. significant raw ipix AND 0x20) n;
                            pixel_list_lg =
                              (if data_red \<noteq> 0 \<and> num_gains raw > 1 then
                                 sample_ranges
                                   (\<lambda>ipix. if significant raw ipix AND 0x20 \<noteq> 0 \<and>
                                               adc_known raw LO_GAIN ipix AND 0x02 = 0
                                            then 0 else significant raw ipix AND 0x20) n
                               else []);
                            it3 = put_ranges pixel_list it2;
                            it4 = (if data_red \<noteq> 0 \<and> num_gains raw > 1 then
                                     put_ranges pixel_list_lg it3
                                   else it3)
                        in if data_red_mode raw \<noteq> 0 then
                             (let it5 = put_traces raw HI_GAIN (range_pixels pixel_list) it4
                              in put_item_end iobuf
                                   (if num_gains raw > 1 then
                                      put_traces raw LO_GAIN (range_pixels pixel_list_lg) it5
                                    else it5))
                           else
                             put_item_end iobuf
                               (fold (\<lambda>igain. put_traces raw igain (range_pixels pixel_list))
                                  gains it4))
                     else if ver < 3 then
                       put_item_end iobuf
                         (fold (\<lambda>igain. fold (\<lambda>ipix. put_vector_of_uint16
                                   (map (adc_sample raw igain ipix) [0..<nat (num_samples raw)]))
                                 [0..<n])
                            gains it2)
                     else
                       put_item_end iobuf
                         (fold (\<lambda>igain. put_traces raw igain [0..<n]) gains it2))))"

section \<open>\<^verbatim>\<open>read_hess_teladc_samples\<close>\<close>

definition set_sample :: "nat \<Rightarrow> nat \<Rightarrow> int list \<Rightarrow> AdcData \<Rightarrow> AdcData" where
  "set_sample g p vs raw =
     raw\<lparr>adc_sample := (adc_sample raw)
            (g := (adc_sample raw g)(p := store (adc_sample raw g p) 0 vs))\<rparr>"

text \<open>The sum of all samples of a trace, as \<^verbatim>\<open>uint32_t\<close> (lines 4869 to 4871).\<close>

definition trace_sum :: "AdcData \<Rightarrow> nat \<Rightarrow> nat \<Rightarrow> int" where
  "trace_sum raw igain ipix =
     fold (\<lambda>isamp sum. u32 (sum + adc_sample raw igain ipix isamp))
       [0..<nat (num_samples raw)] 0"

text \<open>A list of \<open>n\<close> ranges read from the wire, lines 4790 to 4802.\<close>

fun get_ranges :: "nat \<Rightarrow> token list \<Rightarrow> ((int \<times> int) list \<times> token list) option" where
  "get_ranges 0 iobuf = Some ([], iobuf)"
| "get_ranges (Suc n) iobuf =
     (case get_scount iobuf of
        None \<Rightarrow> None
      | Some (ipix1, iobuf1) \<Rightarrow>
          (case (if ipix1 < 0 then Some ((- ipix1 - 1, - ipix1 - 1), iobuf1)
                 else (case get_scount iobuf1 of
                         None \<Rightarrow> None
                       | Some (ipix2, iobuf2) \<Rightarrow> Some ((ipix1, ipix2), iobuf2))) of
             None \<Rightarrow> None
           | Some (r, iobuf3) \<Rightarrow>
               (case get_ranges n iobuf3 of
                  None \<Rightarrow> None
                | Some (rs, iobuf4) \<Rightarrow> Some (r # rs, iobuf4))))"

text \<open>The pixels of the loops \<^verbatim>\<open>for ( ipix=pixel_list[ilist][0]; ipix<=pixel_list[ilist][1]; ipix++ )\<close>.\<close>

definition list_pixels :: "(int \<times> int) list \<Rightarrow> nat list" where
  "list_pixels pixel_list = concat (map (\<lambda>r. [nat (fst r)..<nat (snd r + 1)]) pixel_list)"

text \<open>
  One trace of zero-suppressed data read for a gain and a pixel, lines 4859 to 4885, and
  the loop over the pixels of the list. The pixels of the list come from the record and
  are not tested (lines 4790 to 4802): for a pixel at or beyond \<^verbatim>\<open>H_MAX_PIX\<close> the trace
  and the flags are stored outside the arrays, which has the result \<open>None\<close>.
\<close>

definition get_zs_trace :: "limits \<Rightarrow> int \<Rightarrow> nat \<Rightarrow> nat \<Rightarrow> AdcData \<Rightarrow> token list
    \<Rightarrow> (AdcData \<times> token list) option" where
  "get_zs_trace lim what igain ipix raw iobuf =
     (if int ipix \<ge> H_MAX_PIX lim then None
      else case get_vector_of_uint16_scount_differential (num_samples raw) iobuf of
        None \<Rightarrow> None
      | Some (vs, iobuf1) \<Rightarrow>
          (let raw1 = set_sample igain ipix vs raw;
               raw2 = set_significant ipix (significant raw1 ipix OR 0x20) raw1;
               raw3 = (if adc_known raw2 igain ipix = 0 then
                         (if what AND RAWSUM_FLAG \<noteq> 0 then
                            set_known igain ipix 1
                              (set_sum igain ipix (trace_sum raw2 igain ipix) raw2)
                          else set_sum igain ipix 0 raw2)
                       else raw2)
           in Some (set_known igain ipix (adc_known raw3 igain ipix OR 2) raw3, iobuf1)))"

fun get_traces :: "(nat \<Rightarrow> AdcData \<Rightarrow> token list \<Rightarrow> (AdcData \<times> token list) option)
    \<Rightarrow> nat list \<Rightarrow> AdcData \<Rightarrow> token list \<Rightarrow> (AdcData \<times> token list) option" where
  "get_traces trace [] raw iobuf = Some (raw, iobuf)"
| "get_traces trace (ipix # pixels) raw iobuf =
     (case trace ipix raw iobuf of
        None \<Rightarrow> None
      | Some (raw1, iobuf1) \<Rightarrow> get_traces trace pixels raw1 iobuf1)"

fun get_gains :: "(nat \<Rightarrow> nat \<Rightarrow> AdcData \<Rightarrow> token list \<Rightarrow> (AdcData \<times> token list) option)
    \<Rightarrow> nat list \<Rightarrow> nat list \<Rightarrow> AdcData \<Rightarrow> token list \<Rightarrow> (AdcData \<times> token list) option" where
  "get_gains trace [] pixels raw iobuf = Some (raw, iobuf)"
| "get_gains trace (igain # gains) pixels raw iobuf =
     (case get_traces (trace igain) pixels raw iobuf of
        None \<Rightarrow> None
      | Some (raw1, iobuf1) \<Rightarrow> get_gains trace gains pixels raw1 iobuf1)"

text \<open>
  The traces of the branch for low-gain data reduction, lines 4828 to 4842: the high-gain
  traces of the first list, then the low-gain traces of the second one.
\<close>

definition get_hg_trace :: "limits \<Rightarrow> nat \<Rightarrow> AdcData \<Rightarrow> token list
    \<Rightarrow> (AdcData \<times> token list) option" where
  "get_hg_trace lim ipix raw iobuf =
     (if int ipix \<ge> H_MAX_PIX lim then None
      else case get_vector_of_uint16_scount_differential (num_samples raw) iobuf of
        None \<Rightarrow> None
      | Some (vs, iobuf1) \<Rightarrow>
          (let raw1 = set_sample HI_GAIN ipix vs raw;
               raw2 = set_significant ipix (significant raw1 ipix OR 0x20) raw1
           in Some (set_known HI_GAIN ipix (adc_known raw2 HI_GAIN ipix OR 2) raw2, iobuf1)))"

definition get_lg_trace :: "limits \<Rightarrow> nat \<Rightarrow> AdcData \<Rightarrow> token list
    \<Rightarrow> (AdcData \<times> token list) option" where
  "get_lg_trace lim ipix raw iobuf =
     (if int ipix \<ge> H_MAX_PIX lim then None
      else case get_vector_of_uint16_scount_differential (num_samples raw) iobuf of
        None \<Rightarrow> None
      | Some (vs, iobuf1) \<Rightarrow>
          (let raw1 = set_sample LO_GAIN ipix vs raw
           in Some (set_known LO_GAIN ipix (adc_known raw1 LO_GAIN ipix OR 2) raw1, iobuf1)))"

text \<open>One trace of data without zero suppression, lines 4897 to 4930.\<close>

definition get_plain_trace :: "int \<Rightarrow> int \<Rightarrow> nat \<Rightarrow> nat \<Rightarrow> AdcData \<Rightarrow> token list
    \<Rightarrow> (AdcData \<times> token list) option" where
  "get_plain_trace ver what igain ipix raw iobuf =
     (case (if ver < 3 then get_vector_of_uint16 (num_samples raw) iobuf
            else get_vector_of_uint16_scount_differential (num_samples raw) iobuf) of
        None \<Rightarrow> None
      | Some (vs, iobuf1) \<Rightarrow>
          (let raw1 = set_sample igain ipix vs raw;
               raw2 = (if adc_known raw1 igain ipix = 0 then
                         set_known igain ipix 1
                           (if what AND RAWSUM_FLAG \<noteq> 0 then
                              set_sum igain ipix (trace_sum raw1 igain ipix) raw1
                            else set_sum igain ipix 0 raw1)
                       else raw1)
           in Some (set_known igain ipix (adc_known raw2 igain ipix OR 2) raw2, iobuf1)))"

text \<open>
  The fields of the header, lines 4721 to 4751. The identifier was tested before: the
  modes added to the data are those of the record.
\<close>

definition get_samples_header :: "IO_ITEM_HEADER \<Rightarrow> AdcData \<Rightarrow> token list
    \<Rightarrow> (AdcData \<times> token list) option" where
  "get_samples_header item_header raw iobuf =
     (let flags = u32 (ident item_header);
          zero_sup = flags AND 0x1f;
          data_red = drop_bit 5 flags AND 0x1f;
          raw1 = raw\<lparr>zero_sup_mode := zero_sup_mode raw OR push_bit 5 zero_sup,
                     data_red_mode := data_red_mode raw OR push_bit 5 data_red,
                     list_known := 0\<rparr>
      in case (if version item_header = 0 then
                 Some (raw1\<lparr>tel_id := drop_bit 25 flags AND 0x1f,
                            num_pixels := drop_bit 12 flags AND 0x07ff,
                            num_gains := drop_bit 23 flags AND 0x03\<rparr>, iobuf)
               else if version item_header = 1 then
                 Some (raw1\<lparr>tel_id := drop_bit 25 flags AND 0x1f,
                            num_pixels := drop_bit 12 flags AND 0x0fff,
                            num_gains := (if drop_bit 24 flags AND 0x01 \<noteq> 0 then 2 else 1)\<rparr>,
                       iobuf)
               else
                 (case get_long iobuf of
                    None \<Rightarrow> None
                  | Some (np, iobuf1) \<Rightarrow>
                      (case get_short iobuf1 of
                         None \<Rightarrow> None
                       | Some (ng, iobuf2) \<Rightarrow>
                           Some (raw1\<lparr>tel_id := drop_bit 12 flags AND 0xffff,
                                      num_pixels := np, num_gains := ng\<rparr>, iobuf2)))) of
           None \<Rightarrow> None
         | Some (raw2, iobuf3) \<Rightarrow>
             (case get_short iobuf3 of
                None \<Rightarrow> None
              | Some (ns, iobuf4) \<Rightarrow> Some (raw2\<lparr>num_samples := ns\<rparr>, iobuf4)))"

text \<open>
  The sample-mode bits of the flags are cleared before zero-suppressed data is read,
  lines 4772 to 4779. The flags are \<^verbatim>\<open>uint8_t\<close>.
\<close>

definition clear_sample_bits :: "AdcData \<Rightarrow> AdcData" where
  "clear_sample_bits raw =
     (let n = nat (num_pixels raw)
      in raw\<lparr>significant := (\<lambda>ipix. if ipix < n then u8 (significant raw ipix AND NOT 0xe0)
                                      else significant raw ipix),
             adc_known := (\<lambda>g ipix. if g < 2 \<and> ipix < n then adc_known raw g ipix AND 0x01
                                      else adc_known raw g ipix)\<rparr>)"

text \<open>
  The zero-suppressed data, lines 4765 to 4890. The result holds \<open>False\<close> when a pixel
  list is too large and the function gives up with the return value -1.
\<close>

definition get_zs_samples :: "limits \<Rightarrow> int \<Rightarrow> int \<Rightarrow> AdcData \<Rightarrow> token list
    \<Rightarrow> (bool \<times> AdcData) option" where
  "get_zs_samples lim what data_red raw1 dat1 =
     (let raw2 = clear_sample_bits raw1
      in case get_scount32 dat1 of
           None \<Rightarrow> None
         | Some (list_size0, dat2) \<Rightarrow>
             if list_size0 > H_MAX_PIX lim then Some (False, raw2)
             else
               (case get_ranges (nat list_size0) dat2 of
                  None \<Rightarrow> None
                | Some (pixel_list, dat3) \<Rightarrow>
                    if data_red \<noteq> 0 \<and> num_gains raw2 > 1 then
                      (case get_scount32 dat3 of
                         None \<Rightarrow> None
                       | Some (list_size_lg, dat4) \<Rightarrow>
                           if list_size_lg > H_MAX_PIX lim then Some (False, raw2)
                           else
                             (case get_ranges (nat list_size_lg) dat4 of
                                None \<Rightarrow> None
                              | Some (pixel_list_lg, dat5) \<Rightarrow>
                                  (case get_traces (get_hg_trace lim) (list_pixels pixel_list) raw2 dat5 of
                                     None \<Rightarrow> None
                                   | Some (raw3, dat6) \<Rightarrow>
                                       (case get_traces (get_lg_trace lim) (list_pixels pixel_list_lg)
                                               raw3 dat6 of
                                          None \<Rightarrow> None
                                        | Some (raw4, dat7) \<Rightarrow> Some (True, raw4)))))
                    else
                      (case get_gains (get_zs_trace lim what) [0..<nat (num_gains raw2)]
                              (list_pixels pixel_list) raw2 dat3 of
                         None \<Rightarrow> None
                       | Some (raw3, dat4) \<Rightarrow> Some (True, raw3))))"

text \<open>The data without zero suppression, lines 4891 to 4935.\<close>

definition get_plain_samples :: "int \<Rightarrow> int \<Rightarrow> AdcData \<Rightarrow> token list \<Rightarrow> AdcData option" where
  "get_plain_samples ver what raw1 dat1 =
     (case get_gains (get_plain_trace ver what)
             [0..<nat (num_gains raw1)] [0..<nat (num_pixels raw1)] raw1 dat1 of
        None \<Rightarrow> None
      | Some (raw2, dat2) \<Rightarrow>
          Some (raw2\<lparr>significant := fill (significant raw2) (nat (num_pixels raw2)) 1\<rparr>))"

text \<open>
  The function, lines 4681 to 4940. The argument \<open>what\<close> holds the flag
  \<^verbatim>\<open>RAWSUM_FLAG\<close> when sums are to be derived from the traces.
\<close>

definition read_hess_teladc_samples ::
    "limits \<Rightarrow> IO_BUFFER \<Rightarrow> AdcData \<Rightarrow> int \<Rightarrow> (int \<times> IO_BUFFER \<times> AdcData) option" where
  "read_hess_teladc_samples lim iobuf raw0 what =
     (let raw = raw0\<lparr>num_pixels := 0\<rparr>;
          (rc, item_header, dat) = get_item_begin iobuf IO_TYPE_HESS_TELADCSAMP;
          flags = u32 (ident item_header);
          zero_sup = flags AND 0x1f;
          data_red = drop_bit 5 flags AND 0x1f;
          list_known0 = drop_bit 10 flags AND 0x01
      in if rc < 0 then Some (rc, iobuf, raw)
         else if version item_header > 3 then Some (-1, snd (get_item_end iobuf), raw)
         else if (zero_sup \<noteq> 0 \<and> version item_header < 3) \<or> data_red \<noteq> 0 \<or> list_known0 \<noteq> 0
         then Some (-1, snd (get_item_end iobuf), raw)
         else
           (case get_samples_header item_header raw dat of
              None \<Rightarrow> None
            | Some (raw1, dat1) \<Rightarrow>
                if num_pixels raw1 > H_MAX_PIX lim \<or> num_gains raw1 > H_MAX_GAINS \<or>
                   num_samples raw1 > H_MAX_SLICES lim
                then Some (-1, snd (get_item_end iobuf), raw1\<lparr>num_pixels := 0\<rparr>)
                else if zero_sup \<noteq> 0 then
                  (case get_zs_samples lim what data_red raw1 dat1 of
                     None \<Rightarrow> None
                   | Some (complete, raw2) \<Rightarrow>
                       if complete then
                         Some (fst (get_item_end iobuf), snd (get_item_end iobuf),
                               raw2\<lparr>known := known raw2 OR 2\<rparr>)
                       else Some (-1, snd (get_item_end iobuf), raw2))
                else
                  (case get_plain_samples (version item_header) what raw1 dat1 of
                     None \<Rightarrow> None
                   | Some raw2 \<Rightarrow>
                       Some (fst (get_item_end iobuf), snd (get_item_end iobuf),
                             raw2\<lparr>known := known raw2 OR 2\<rparr>))))"

section \<open>Auxiliary notions\<close>

text \<open>
  A writing function appends: the header of the record stays and the data grows at its
  end, by tokens that do not depend on what was written before.
\<close>

definition appends :: "(item \<Rightarrow> item) \<Rightarrow> bool" where
  "appends f \<longleftrightarrow> (\<exists>ts. \<forall>it. f it = (fst it, snd it @ ts))"







definition ex_40000_plain :: AdcData where
  "ex_40000_plain = adc_cleared\<lparr>known := 1, num_pixels := 40000, num_gains := 1\<rparr>"

definition ex_40000_list :: AdcData where
  "ex_40000_list =
     adc_cleared\<lparr>known := 1, num_pixels := 40000, num_gains := 1, zero_sup_mode := 2,
                  list_known := 1\<rparr>"

definition ex_no_low_gain :: AdcData where
  "ex_no_low_gain =
     adc_cleared\<lparr>known := 1, num_pixels := 1, num_gains := 2, data_red_mode := 1,
                  threshold := 1, adc_sum := (\<lambda>g p. 5),
                  adc_known := (\<lambda>g p. if g = 0 then 1 else 0), significant := (\<lambda>p. 1)\<rparr>"


definition ex_samples_record :: IO_BUFFER where
  "ex_samples_record =
     [(\<lparr>type = 2013, version = 3, ident = 0\<rparr>,
       [Word32 2, Word16 1, Word16 2, SCount 5, SCount 2, SCount 1, SCount 3])]"

definition ex_samples_zs_record :: IO_BUFFER where
  "ex_samples_zs_record =
     [(\<lparr>type = 2013, version = 3, ident = 1\<rparr>,
       [Word32 3, Word16 1, Word16 2, SCount 1, SCount (-2), SCount 4, SCount 2])]"

definition ex_sum_known :: AdcData where
  "ex_sum_known =
     adc_cleared\<lparr>adc_sum := (\<lambda>g p. if p = 0 then 99 else 0),
                  adc_known := (\<lambda>g p. if p = 0 then 1 else 0)\<rparr>"

definition ex_samples_seen :: AdcData where
  "ex_samples_seen = adc_cleared\<lparr>adc_known := (\<lambda>g p. 2)\<rparr>"

definition ex_lim :: limits where
  "ex_lim = \<lparr>H_MAX_PIX = 4095, H_MAX_SLICES = 128\<rparr>"

definition ex_low_gain_reduced :: AdcData where
  "ex_low_gain_reduced =
     adc_cleared\<lparr>known := 1, num_pixels := 2, num_gains := 2, num_samples := 2,
                  zero_sup_mode := 0x20, data_red_mode := 0x20,
                  significant := (\<lambda>p. if p = 0 then 0x20 else 0),
                  adc_known := (\<lambda>g p. if p = 0 then 2 else 0),
                  adc_sample := (\<lambda>g p i. if p = 0 \<and> i < 2 then (if g = 0 then [5, 7] else [1, 4]) ! i
                                           else 0)\<rparr>"

definition ex_list_low_gain :: AdcData where
  "ex_list_low_gain =
     adc_cleared\<lparr>known := 1, num_pixels := 2, num_gains := 2, zero_sup_mode := 2,
                  data_red_mode := 1, threshold := 1, list_known := 1, list_size := 2,
                  adc_list := (\<lambda>j. int j), significant := (\<lambda>p. 1),
                  adc_known := (\<lambda>g p. if g = 0 \<or> p = 1 then 1 else 0),
                  adc_sum := (\<lambda>g p. if g = 0 then (if p = 0 then 10 else 20)
                                     else (if p = 1 then 30 else 0))\<rparr>"

section \<open>Properties\<close>

subsection \<open>Facts about the primitive codec\<close>

lemma snd_fold_put_short: "snd (fold put_short vs it) = snd it @ map (\<lambda>v. Word16 (u16 v)) vs"
  by (induction vs arbitrary: it) (simp_all add: put_short_def)

lemma get_vector_uint16_tokens:
  "get_vector get_uint16 (length vs) (map Word16 vs @ rest) = Some (vs, rest)"
  by (induction vs) simp_all

subsection \<open>The legacy 16-bit coder\<close>

text \<open>
  Claim C7. A vector of \<^verbatim>\<open>uint32_t\<close> amplitudes written by
  \<^verbatim>\<open>put_adcsum_as_uint16\<close> and read back by \<^verbatim>\<open>get_adcsum_as_uint16\<close> yields every
  amplitude of at most 65535 unchanged and exactly 65535 for every larger one; no value is
  wrapped or negative.
\<close>

theorem legacy_uint16_saturates:
  assumes "\<forall>a \<in> set vec. 0 \<le> a \<and> a < 2 ^ 32"
  shows "get_adcsum_as_uint16 (int (length vec))
           (drop (length (snd iobuf)) (snd (put_adcsum_as_uint16 vec iobuf)) @ rest)
         = Some (map (\<lambda>a. if a \<le> 65535 then a else 65535) vec, rest)"
proof -
  let ?short = "map (\<lambda>a. if a < 65535 then u16 a else 65535) vec"
  let ?out = "map (\<lambda>a. if a \<le> 65535 then a else 65535) vec"
  have clamp: "map u16 ?short = ?out"
    using assms by (auto simp: u16_def)
  have "snd (put_adcsum_as_uint16 vec iobuf) = snd iobuf @ map Word16 (map u16 ?short)"
    by (simp add: put_adcsum_as_uint16_def put_vector_of_uint16_def snd_fold_put_short comp_def)
  then have wire: "drop (length (snd iobuf)) (snd (put_adcsum_as_uint16 vec iobuf)) = map Word16 ?out"
    by (simp only: clamp append_eq_conv_conj drop_append) simp
  have "get_vector get_uint16 (length ?out) (map Word16 ?out @ rest) = Some (?out, rest)"
    by (rule get_vector_uint16_tokens)
  then show ?thesis
    by (simp add: wire get_adcsum_as_uint16_def get_vector_of_uint16_def)
qed

theorem legacy_uint16_saturates_witness:
  "get_adcsum_as_uint16 3
     (snd (put_adcsum_as_uint16 [7, 65535, 70000]
            (put_item_begin \<lparr>type = IO_TYPE_HESS_TELADCSUM, version = 2, ident = 0\<rparr>)))
     = Some ([7, 65535, 65535], [])"
  using legacy_uint16_saturates
          [of "[7, 65535, 70000]"
              "put_item_begin \<lparr>type = IO_TYPE_HESS_TELADCSUM, version = 2, ident = 0\<rparr>" "[]"]
  by (simp add: put_item_begin_def)

subsection \<open>Writing data that is not known\<close>

text \<open>
  Claim C10. When the \<^verbatim>\<open>known\<close> flag of the data is 0, \<^verbatim>\<open>write_hess_teladc_sums\<close>
  and \<^verbatim>\<open>write_hess_teladc_samples\<close> both return 0 and leave the buffer as it was:
  nothing is written and no error is reported.
\<close>

theorem write_unknown_is_noop:
  "known raw = 0 \<Longrightarrow>
     write_hess_teladc_sums stack iobuf raw = Some (0, iobuf, raw) \<and>
     write_hess_teladc_samples iobuf raw = (0, iobuf)"
  by (simp add: write_hess_teladc_sums_def write_hess_teladc_samples_def Let_def)

theorem write_unknown_is_noop_witness:
  "known (adc_cleared\<lparr>num_pixels := 4, num_gains := 2\<rparr>) = 0 \<and>
   write_hess_teladc_sums (\<lambda>j. 0) [] (adc_cleared\<lparr>num_pixels := 4, num_gains := 2\<rparr>)
     = Some (0, [], adc_cleared\<lparr>num_pixels := 4, num_gains := 2\<rparr>) \<and>
   write_hess_teladc_samples [] (adc_cleared\<lparr>num_pixels := 4, num_gains := 2\<rparr>) = (0, [])"
  using write_unknown_is_noop [of "adc_cleared\<lparr>num_pixels := 4, num_gains := 2\<rparr>" "\<lambda>j. 0" "[]"]
  by (simp add: adc_cleared_def)

subsection \<open>Records that the reader of the sums refuses\<close>

text \<open>
  Claim C6. When the next record of the buffer is a record of ADC sums whose version
  exceeds 4, or whose header declares more than \<^verbatim>\<open>H_MAX_PIX\<close> pixels, more than
  \<^verbatim>\<open>H_MAX_GAINS\<close> gains, a zero suppression mode above 2, a data reduction mode above
  2, or at least 32768 pixels together with a zero suppression mode above 1, then
  \<^verbatim>\<open>read_hess_teladc_sums\<close> returns -1, the buffer is left at the record that follows
  (the refused record is consumed to its end), and the \<^verbatim>\<open>known\<close> flag of the data is 0.
\<close>

theorem read_sums_rejects:
  assumes "get_item_begin iobuf IO_TYPE_HESS_TELADCSUM = (0, item_header, dat)"
    and "version item_header > 4 \<or>
         (\<exists>raw1 dat1. get_sums_header item_header (raw\<lparr>known := 0, num_pixels := 0\<rparr>) dat
                         = Some (raw1, dat1) \<and>
            (num_pixels raw1 > H_MAX_PIX lim \<or> num_gains raw1 > H_MAX_GAINS \<or>
             zero_sup_mode raw1 > 2 \<or> data_red_mode raw1 > 2 \<or>
             (num_pixels raw1 \<ge> 32768 \<and> zero_sup_mode raw1 > 1)))"
  shows "\<exists>raw'. read_hess_teladc_sums lim iobuf raw = Some (-1, tl iobuf, raw') \<and>
           known raw' = 0"
proof (cases "version item_header > 4")
  case True
  then show ?thesis
    using assms(1) by (simp add: read_hess_teladc_sums_def get_item_end_def)
next
  case False
  with assms(2) obtain raw1 dat1 where
    hdr: "get_sums_header item_header (raw\<lparr>known := 0, num_pixels := 0\<rparr>) dat = Some (raw1, dat1)"
    and bad: "sums_invalid lim raw1"
    by (auto simp: sums_invalid_def)
  have "known raw1 = 0"
    using hdr
    by (auto simp: get_sums_header_def Let_def split: if_splits option.splits prod.splits)
  then show ?thesis
    using assms(1) False hdr bad by (simp add: read_hess_teladc_sums_def get_item_end_def)
qed

theorem read_sums_rejects_witness:
  "\<exists>raw'. read_hess_teladc_sums \<lparr>H_MAX_PIX = 4095, H_MAX_SLICES = 128\<rparr>
             [(\<lparr>type = 2012, version = 3, ident = 3\<rparr>, [Word32 10, Word16 2, SCount 7]),
              (\<lparr>type = 2012, version = 3, ident = 0\<rparr>, [Word32 0, Word16 1])]
             (adc_cleared\<lparr>known := 1\<rparr>)
           = Some (-1, [(\<lparr>type = 2012, version = 3, ident = 0\<rparr>, [Word32 0, Word16 1])], raw') \<and>
         known raw' = 0"
  using read_sums_rejects
          [of "[(\<lparr>type = 2012, version = 3, ident = 3\<rparr>, [Word32 10, Word16 2, SCount 7]),
                (\<lparr>type = 2012, version = 3, ident = 0\<rparr>, [Word32 0, Word16 1])]"
              "\<lparr>type = 2012, version = 3, ident = 3\<rparr>" "[Word32 10, Word16 2, SCount 7]"
              "adc_cleared\<lparr>known := 1\<rparr>" "\<lparr>H_MAX_PIX = 4095, H_MAX_SLICES = 128\<rparr>"]
  by (simp add: get_item_begin_def IO_TYPE_HESS_TELADCSUM_def get_sums_header_def u32_def
        s32_def s16_def)

subsection \<open>What the writer of the sums appends\<close>

named_theorems appends_intros

lemma appends_id [appends_intros]: "appends (\<lambda>it. it)"
  unfolding appends_def by (rule exI [of _ "[]"]) simp

lemma appends_after: "appends g \<Longrightarrow> appends f \<Longrightarrow> appends (\<lambda>it. g (f it))"
  unfolding appends_def
proof -
  assume "\<exists>ts. \<forall>it. g it = (fst it, snd it @ ts)" "\<exists>ts. \<forall>it. f it = (fst it, snd it @ ts)"
  then obtain t1 t2 where "\<And>it. g it = (fst it, snd it @ t1)" "\<And>it. f it = (fst it, snd it @ t2)"
    by blast
  then show "\<exists>ts. \<forall>it. g (f it) = (fst it, snd it @ ts)"
    by (intro exI [of _ "t2 @ t1"]) simp
qed

lemma appends_ite [appends_intros]:
  "appends f \<Longrightarrow> appends g \<Longrightarrow> appends (\<lambda>it. if c then f it else g it)"
  by (cases c) (simp_all add: appends_def)

lemma appends_prim:
  "appends (put_byte v)" "appends (put_short v)" "appends (put_long v)"
  "appends (put_count v)" "appends (put_scount v)" "appends (put_scount32 v)"
  unfolding appends_def put_byte_def put_short_def put_long_def put_count_def put_scount_def
    put_scount32_def
  by blast+

lemma appends_fold: "(\<And>v. appends (f v)) \<Longrightarrow> appends (fold f vs)"
proof (induction vs)
  case Nil
  then show ?case using appends_id by (simp add: id_def)
next
  case (Cons v vs)
  have "fold f (v # vs) = (\<lambda>it. fold f vs (f v it))" by (simp add: fun_eq_iff)
  then show ?case using appends_after [OF Cons.IH Cons.prems] Cons.prems by simp
qed

lemma appends_vector:
  "appends (put_vector_of_uint8 vs)" "appends (put_vector_of_uint16 vs)"
  "appends (put_vector_of_int vs)" "appends (put_vector_of_int_scount vs)"
  unfolding put_vector_of_uint8_def [abs_def] put_vector_of_uint16_def [abs_def]
    put_vector_of_int_def [abs_def] put_vector_of_int_scount_def [abs_def]
  by (simp_all add: appends_fold appends_prim)

lemma appends_differential: "appends (put_differential p vs)"
proof (induction vs arbitrary: p)
  case Nil
  then show ?case using appends_id by (simp add: fun_eq_iff appends_def)
next
  case (Cons a vs)
  have "put_differential p (a # vs)
          = (\<lambda>it. put_differential (s32 a) vs (put_scount32 (s32 (s32 a - p)) it))"
    by (simp add: fun_eq_iff Let_def)
  then show ?case using appends_after [OF Cons.IH appends_prim(6)] by simp
qed

lemma appends_adcsum:
  "appends (put_adcsum_as_uint16 vs)" "appends (put_adcsum_differential vs)"
  "appends (put_adcsample_differential vs)" "appends (put_adcsum ver vs)"
  unfolding put_adcsum_as_uint16_def [abs_def] put_adcsum_differential_def [abs_def]
    put_adcsample_differential_def [abs_def] put_adcsum_def [abs_def]
  by (simp_all add: appends_vector appends_differential appends_ite)

lemmas appends_step [appends_intros] =
  appends_prim [THEN appends_after] appends_vector [THEN appends_after]
  appends_adcsum [THEN appends_after]

lemma appends_lg_hg: "appends (put_lg_hg raw ver lg hg)"
  unfolding put_lg_hg_def [abs_def] by (intro appends_intros)

lemma appends_pixel_list: "appends (put_pixel_list ver n lst)"
  unfolding put_pixel_list_def [abs_def] by (intro appends_intros)

lemmas appends_step2 [appends_intros] =
  appends_lg_hg [THEN appends_after] appends_pixel_list [THEN appends_after]

lemma appends_flush:
  "appends (z0d1_flush raw ver k j b)" "appends (z0d2_flush raw ver k j b)"
  "appends (z1d0_flush raw ver k j b)" "appends (z1d1_flush raw ver k j b)"
  "appends (z1d2_flush raw ver k j b)"
  unfolding z0d1_flush_def [abs_def] z0d2_flush_def [abs_def] z1d0_flush_def [abs_def]
    z1d1_flush_def [abs_def] z1d2_flush_def [abs_def] Let_def
  by (intro appends_intros)+

lemma appends_blocks:
  "(\<And>k j b. appends (flush k j b)) \<Longrightarrow> appends (put_blocks pixel flush n k j b)"
proof (induction n arbitrary: k j b)
  case 0
  then show ?case using appends_id by (simp add: fun_eq_iff appends_def)
next
  case (Suc n)
  have "put_blocks pixel flush (Suc n) k j b =
          (\<lambda>it. if Suc j = 16 \<or> n = 0
                 then put_blocks pixel flush n (Suc k) 0 empty_block (flush (Suc k) (Suc j) (pixel k j b) it)
                 else put_blocks pixel flush n (Suc k) (Suc j) (pixel k j b) it)"
    by (simp add: fun_eq_iff Let_def)
  then show ?case
    using appends_ite [OF appends_after [OF Suc.IH Suc.prems] Suc.IH, OF Suc.prems Suc.prems]
    by simp
qed

lemma appends_z2:
  "appends (put_sums_z2d0 raw ver)" "appends (put_sums_z2d1 stack raw ver)"
  "appends (put_sums_z2d2 stack raw ver offset scale half)"
  unfolding put_sums_z2d0_def [abs_def] put_sums_z2d1_def [abs_def] put_sums_z2d2_def [abs_def]
    Let_def case_prod_beta
  by (intro appends_intros)+

lemma appendsD: "appends f \<Longrightarrow> \<exists>ts. f it = (fst it, snd it @ ts)"
  unfolding appends_def by blast

lemma put_sums_Some:
  assumes "put_sums stack raw ver zero_sup data_red offset scale half it = Some it'"
  shows "zero_sup \<in> {0, 1, 2} \<and> data_red \<in> {0, 1, 2} \<and> (\<exists>ts. it' = (fst it, snd it @ ts))"
  using assms
  by (auto simp: put_sums_def Let_def split: if_splits
        intro!: appendsD appends_blocks appends_flush appends_z2 appends_fold appends_adcsum)

lemma or_push_bit_add:
  fixes a b :: int
  assumes "0 \<le> a" "a < 2 ^ n"
  shows "a OR push_bit n b = a + push_bit n b"
proof -
  have "take_bit n a AND push_bit n b = 0"
    by (simp add: bit_eq_iff bit_simps)
  then have "a AND push_bit n b = 0"
    using assms by (simp add: take_bit_int_eq_self)
  then show ?thesis by (simp add: disjunctive_add_eq_or)
qed

lemma and_0x1f: "(x::int) AND 0x1f = x mod 32"
proof -
  have "(0x1f::int) = mask 5" by (simp add: mask_eq_exp_minus_1)
  then show ?thesis by (simp only: take_bit_eq_mask [symmetric] take_bit_eq_mod) simp
qed

lemma and_0xffff: "(x::int) AND 0xffff = x mod 65536"
proof -
  have "(0xffff::int) = mask 16" by (simp add: mask_eq_exp_minus_1)
  then show ?thesis by (simp only: take_bit_eq_mask [symmetric] take_bit_eq_mod) simp
qed

lemma flags_sum:
  fixes zs dr l t :: int
  assumes "0 \<le> zs" "zs < 32" "0 \<le> dr" "dr < 32" "0 \<le> l" "l < 2" "0 \<le> t"
  shows "(zs OR push_bit 5 dr OR push_bit 10 l) OR push_bit 12 t
           = zs + 32 * dr + 1024 * l + 4096 * t"
proof -
  have 0: "(zs OR push_bit 5 dr OR push_bit 10 l) = (zs OR push_bit 5 dr) OR push_bit 10 l"
    by (simp only: or.assoc)
  have 1: "zs OR push_bit 5 dr = zs + 32 * dr"
    using or_push_bit_add [of zs 5 dr] assms by (simp add: push_bit_eq_mult)
  have 2: "(zs + 32 * dr) OR push_bit 10 l = zs + 32 * dr + 1024 * l"
    using or_push_bit_add [of "zs + 32 * dr" 10 l] assms by (simp add: push_bit_eq_mult)
  have 3: "(zs + 32 * dr + 1024 * l) OR push_bit 12 t = zs + 32 * dr + 1024 * l + 4096 * t"
    using or_push_bit_add [of "zs + 32 * dr + 1024 * l" 12 t] assms by (simp add: push_bit_eq_mult)
  show ?thesis by (simp only: 0 1 2 3)
qed

lemma field_zs: fixes zs dr l t :: int
  assumes "0 \<le> zs" "zs < 32"
  shows "(zs + 32 * dr + 1024 * l + 4096 * t) mod 32 = zs"
proof -
  have "zs + 32 * dr + 1024 * l + 4096 * t = zs + 32 * (dr + 32 * l + 128 * t)" by simp
  then show ?thesis using assms by (simp only: mod_mult_self2) simp
qed

lemma field_dr: fixes zs dr l t :: int
  assumes "0 \<le> zs" "zs < 32" "0 \<le> dr" "dr < 32"
  shows "(zs + 32 * dr + 1024 * l + 4096 * t) div 32 mod 32 = dr"
proof -
  have "zs + 32 * dr + 1024 * l + 4096 * t = zs + 32 * (dr + 32 * (l + 4 * t))" by simp
  then have "(zs + 32 * dr + 1024 * l + 4096 * t) div 32 = dr + 32 * (l + 4 * t)"
    using assms by simp
  then show ?thesis using assms by (simp only: mod_mult_self2) simp
qed

lemma field_tel: fixes zs dr l t :: int
  assumes "0 \<le> zs" "zs < 32" "0 \<le> dr" "dr < 32" "0 \<le> l" "l < 2"
  shows "(zs + 32 * dr + 1024 * l + 4096 * t) div 4096 = t"
proof -
  have "zs + 32 * dr + 1024 * l + 4096 * t = (zs + 32 * dr + 1024 * l) + 4096 * t" by simp
  moreover have "0 \<le> zs + 32 * dr + 1024 * l" "zs + 32 * dr + 1024 * l < 4096"
    using assms by linarith+
  ultimately show ?thesis by simp
qed

text \<open>The identifier written for version 2 and up, as a sum of its fields.\<close>

lemma sums_flags_sum:
  assumes "2 \<le> ver" "0 \<le> zero_sup" "zero_sup < 32" "0 \<le> data_red" "data_red < 32"
  shows "sums_flags raw ver zero_sup data_red
           = zero_sup + 32 * data_red + 1024 * (if list_known raw \<noteq> 0 then 1 else 0)
             + 4096 * (tel_id raw mod 65536)"
proof -
  have nv: "\<not> ver < 2" using assms(1) by simp
  show ?thesis
    unfolding sums_flags_def Let_def and_0xffff
    by (simp only: nv if_False) (rule flags_sum, use assms in simp_all)
qed

lemma sums_flags_fields:
  assumes "2 \<le> ver" "0 \<le> zero_sup" "zero_sup < 32" "0 \<le> data_red" "data_red < 32"
  shows "sums_flags raw ver zero_sup data_red AND 0x1f = zero_sup"
    and "drop_bit 5 (sums_flags raw ver zero_sup data_red) AND 0x1f = data_red"
    and "drop_bit 12 (sums_flags raw ver zero_sup data_red) = tel_id raw AND 0xffff"
    and "u32 (sums_flags raw ver zero_sup data_red) = sums_flags raw ver zero_sup data_red"
proof -
  define l :: int where "l = (if list_known raw \<noteq> 0 then 1 else 0)"
  define t where "t = tel_id raw mod 65536"
  have l: "0 \<le> l" "l < 2" by (simp_all add: l_def)
  have t: "0 \<le> t" "t < 65536" by (simp_all add: t_def)
  have f: "sums_flags raw ver zero_sup data_red = zero_sup + 32 * data_red + 1024 * l + 4096 * t"
    unfolding l_def t_def by (rule sums_flags_sum [OF assms])
  show "sums_flags raw ver zero_sup data_red AND 0x1f = zero_sup"
    unfolding f and_0x1f using assms by (intro field_zs)
  show "drop_bit 5 (sums_flags raw ver zero_sup data_red) AND 0x1f = data_red"
    unfolding f and_0x1f drop_bit_eq_div using field_dr [of zero_sup data_red l t] assms by simp
  show "drop_bit 12 (sums_flags raw ver zero_sup data_red) = tel_id raw AND 0xffff"
    unfolding f and_0xffff drop_bit_eq_div t_def [symmetric]
    using field_tel [of zero_sup data_red l t] assms l by simp
  have "0 \<le> zero_sup + 32 * data_red + 1024 * l + 4096 * t"
    "zero_sup + 32 * data_red + 1024 * l + 4096 * t < 4294967296"
    using assms l t by linarith+
  then show "u32 (sums_flags raw ver zero_sup data_red) = sums_flags raw ver zero_sup data_red"
    unfolding f u32_def by simp
qed



lemma sums_select_fields:
  assumes "sums_select raw z = (raw', z')"
  shows "num_pixels raw' = num_pixels raw" "num_gains raw' = num_gains raw"
    "data_red_mode raw' = data_red_mode raw" "zero_sup_mode raw' = zero_sup_mode raw"
    "tel_id raw' = tel_id raw" "threshold raw' = threshold raw"
    "offset_hg8 raw' = offset_hg8 raw" "scale_hg8 raw' = scale_hg8 raw"
    "adc_sum raw' = adc_sum raw"
  using assms by (auto simp: sums_select_def Let_def split: if_splits prod.splits)

lemma sums_select_mode:
  assumes "sums_select raw z = (raw', z')" "0 \<le> z" "z \<le> 3"
  shows "z' \<in> {0, 1, 2}"
  using assms by (auto simp: sums_select_def Let_def split: if_splits prod.splits)

text \<open>The data at the start of the record.\<close>

lemma put_sums_head_tokens:
  assumes "2 \<le> ver"
  shows "put_sums_head raw ver zero_sup data_red =
           (\<lparr>type = IO_TYPE_HESS_TELADCSUM, version = ver,
              ident = sums_flags raw ver zero_sup data_red\<rparr>,
            (if ver \<ge> 4 \<and> data_red_mode raw = 2
             then [SCount (s32 (threshold raw)), SCount (s32 (offset_hg8 raw)),
                   SCount (s32 (scale_hg8 raw))]
             else []) @
            [Word32 (u32 (num_pixels raw)), Word16 (u16 (num_gains raw))])"
  using assms
  by (simp add: put_sums_head_def Let_def put_item_begin_def put_scount32_def put_long_def
        put_short_def)

lemma put_sums_hg8_Some:
  "put_sums_hg8 raw data_red it = Some (offset, scale, it') \<Longrightarrow>
     \<exists>ts. it' = (fst it, snd it @ ts)"
proof (cases "data_red = 2")
  case True
  assume "put_sums_hg8 raw data_red it = Some (offset, scale, it')"
  with True show ?thesis
    by (auto simp: put_sums_hg8_def put_short_def split: option.splits)
next
  case False
  assume "put_sums_hg8 raw data_red it = Some (offset, scale, it')"
  with False have "it' = (fst it, snd it @ [])"
    by (simp add: put_sums_hg8_def)
  then show ?thesis by blast
qed

text \<open>What a successful call has done.\<close>

lemma write_sums_record:
  assumes "write_hess_teladc_sums stack iobuf raw = Some (rc, iobuf', raw')"
    and "known raw \<noteq> 0" and "rc = 0"
  shows "\<exists>zero_sup data_red ts.
           \<not> sums_unsupported raw (sums_version raw) (fst (sums_modes raw (sums_version raw))) data_red \<and>
           data_red = snd (sums_modes raw (sums_version raw)) \<and>
           sums_select raw (fst (sums_modes raw (sums_version raw))) = (raw', zero_sup) \<and>
           zero_sup \<in> {0, 1, 2} \<and> data_red \<in> {0, 1, 2} \<and>
           iobuf' = iobuf @
             [(fst (put_sums_head raw' (sums_version raw) zero_sup data_red),
               snd (put_sums_head raw' (sums_version raw) zero_sup data_red) @ ts)]"
proof -
  obtain z0 dr where modes: "sums_modes raw (sums_version raw) = (z0, dr)"
    by (cases "sums_modes raw (sums_version raw)")
  obtain raw1 zs where sel: "sums_select raw z0 = (raw1, zs)"
    by (cases "sums_select raw z0")
  have sup: "\<not> sums_unsupported raw (sums_version raw) z0 dr"
    using assms modes by (auto simp: write_hess_teladc_sums_def Let_def)
  let ?head = "put_sums_head raw1 (sums_version raw) zs dr"
  obtain offset scale it3 where
    hg8: "put_sums_hg8 raw1 dr ?head = Some (offset, scale, it3)"
  proof (cases "put_sums_hg8 raw1 dr ?head")
    case None
    then show ?thesis
      using assms(1,2) modes sel sup by (simp add: write_hess_teladc_sums_def Let_def)
  next
    case (Some r)
    then show ?thesis using that by (cases r) auto
  qed
  obtain it4 where
    body: "put_sums stack raw1 (sums_version raw) zs dr offset scale (cdiv scale 2) it3 = Some it4"
  proof (cases "put_sums stack raw1 (sums_version raw) zs dr offset scale (cdiv scale 2) it3")
    case None
    then show ?thesis
      using assms(1,2) modes sel sup hg8 by (simp add: write_hess_teladc_sums_def Let_def)
  next
    case (Some r)
    then show ?thesis using that by auto
  qed
  have res: "iobuf' = iobuf @ [it4]" "raw' = raw1"
    using assms(1,2) modes sel sup hg8 body
    by (simp_all add: write_hess_teladc_sums_def Let_def put_item_end_def)
  from put_sums_hg8_Some [OF hg8] obtain t1 where t1: "it3 = (fst ?head, snd ?head @ t1)"
    by blast
  from put_sums_Some [OF body] obtain t2 where
    "zs \<in> {0, 1, 2}" "dr \<in> {0, 1, 2}" "it4 = (fst it3, snd it3 @ t2)"
    by blast
  then show ?thesis
    using modes sel sup res t1
    by (intro exI [of _ zs] exI [of _ dr] exI [of _ "t1 @ t2"]) simp
qed

text \<open>When the call succeeds.\<close>

lemma write_sums_accepts:
  assumes "known raw \<noteq> 0"
    and "\<not> sums_unsupported raw (sums_version raw) (fst (sums_modes raw (sums_version raw)))
            (snd (sums_modes raw (sums_version raw)))"
    and "fst (sums_modes raw (sums_version raw)) \<noteq> 4"
    and "snd (sums_modes raw (sums_version raw)) = 2 \<longrightarrow> num_pixels raw \<noteq> 0 \<or> 0 < offset_hg8 raw"
  shows "\<exists>iobuf' raw'. write_hess_teladc_sums stack iobuf raw = Some (0, iobuf', raw')"
proof -
  obtain z0 dr where modes: "sums_modes raw (sums_version raw) = (z0, dr)"
    by (cases "sums_modes raw (sums_version raw)")
  obtain raw1 zs where sel: "sums_select raw z0 = (raw1, zs)"
    by (cases "sums_select raw z0")
  have sup: "\<not> sums_unsupported raw (sums_version raw) z0 dr"
    using assms(2) modes by simp
  then have "0 \<le> z0" "z0 \<le> 3" "dr \<in> {0, 1, 2}"
    using assms(3) modes by (auto simp: sums_unsupported_def)
  with sums_select_mode [OF sel] have zs: "zs \<in> {0, 1, 2}" by simp
  let ?head = "put_sums_head raw1 (sums_version raw) zs dr"
  have "sums_hg8 raw1 \<noteq> None" if "dr = 2"
    using that assms(4) modes sums_select_fields [OF sel]
    by (auto simp: sums_hg8_def Let_def)
  then have "put_sums_hg8 raw1 dr ?head \<noteq> None"
    by (auto simp: put_sums_hg8_def split: option.splits)
  then obtain offset scale it3 where
    hg8: "put_sums_hg8 raw1 dr ?head = Some (offset, scale, it3)"
    by (cases "put_sums_hg8 raw1 dr ?head") auto
  have "put_sums stack raw1 (sums_version raw) zs dr offset scale (cdiv scale 2) it3 \<noteq> None"
    using zs \<open>dr \<in> {0, 1, 2}\<close> by (auto simp: put_sums_def Let_def)
  then obtain it4 where
    body: "put_sums stack raw1 (sums_version raw) zs dr offset scale (cdiv scale 2) it3 = Some it4"
    by blast
  show ?thesis
    using assms(1) modes sel sup hg8 body
    by (simp add: write_hess_teladc_sums_def Let_def put_item_end_def)
qed

subsection \<open>The choice of the zero suppression scheme\<close>




subsection \<open>The version of a record for 40000 pixels\<close>

lemma get_sums_header_modes:
  "get_sums_header item_header raw iobuf = Some (raw1, iobuf1) \<Longrightarrow>
     zero_sup_mode raw1 = u32 (ident item_header) AND 0x1f \<and>
     data_red_mode raw1 = drop_bit 5 (u32 (ident item_header)) AND 0x1f"
  by (auto simp: get_sums_header_def Let_def split: if_splits option.splits)

text \<open>
  Claim C4. Data of 40000 pixels with zero suppression mode 2 that
  \<^verbatim>\<open>write_hess_teladc_sums\<close> accepts is written as a record of version 4, with mode 2
  in the identifier, the telescope number alone in the bits from bit 12 on and the pixel
  count as a field of the data. \<^verbatim>\<open>read_hess_teladc_sums\<close> does not decode this record,
  whatever the limits and the data read into are: it takes the pixel count 40000 from the
  field, refuses it together with mode 2 (line 3893) and returns -1 with the pixel count 0.
  When the data reduction mode of the data is 2 and the mode in effect is not, or the
  other way round, the reader does not even find the field: the three parameters at the
  start of a record of version 4 are written for the one and expected for the other.
\<close>

theorem sums_40000_pixels:
  assumes "write_hess_teladc_sums stack [] raw = Some (0, iobuf', raw')"
    and "known raw \<noteq> 0" and "num_pixels raw = 40000" and "zero_sup_mode raw = 2"
  shows "\<exists>h d. iobuf' = [(h, d)] \<and> version h = 4 \<and> u32 (ident h) AND 0x1f = 2 \<and>
           drop_bit 12 (u32 (ident h)) = tel_id raw AND 0xffff \<and>
           (case read_hess_teladc_sums lim iobuf' raw0 of
              None \<Rightarrow> data_red_mode raw = 2 \<longleftrightarrow> snd (sums_modes raw 4) \<noteq> 2
            | Some (rc, iobuf1, raw1) \<Rightarrow>
                rc = -1 \<and> iobuf1 = [] \<and> num_pixels raw1 = 0 \<and> known raw1 = 0)"
proof -
  let ?ver = "sums_version raw"
  have v: "?ver = 4"
    using assms(3,4) by (simp add: sums_version_def Let_def)
  have z0: "fst (sums_modes raw 4) = 2"
    using assms(4) by (simp add: sums_modes_def Let_def)
  from write_sums_record [OF assms(1,2)] obtain zero_sup data_red ts where
    sel: "sums_select raw 2 = (raw', zero_sup)"
    and dr: "data_red = snd (sums_modes raw 4)"
    and zs: "data_red \<in> {0, 1, 2}"
    and buf: "iobuf' =
             [(fst (put_sums_head raw' 4 zero_sup data_red),
               snd (put_sums_head raw' 4 zero_sup data_red) @ ts)]"
    unfolding v z0 by auto
  from sel have z: "zero_sup = 2"
    by (auto simp: sums_select_def Let_def split: if_splits prod.splits)
  have rng: "0 \<le> data_red" "data_red < 32"
    using zs by auto
  have c: "(2::int) \<le> 4" "(0::int) \<le> 2" "(2::int) < 32" by simp_all
  note ff = sums_flags_fields [OF c rng, of raw']
  note sf = sums_select_fields [OF sel]
  let ?h = "\<lparr>type = IO_TYPE_HESS_TELADCSUM, version = 4,
             ident = sums_flags raw' 4 2 data_red\<rparr>"
  let ?p = "if data_red_mode raw' = 2
             then [SCount (s32 (threshold raw')), SCount (s32 (offset_hg8 raw')),
                   SCount (s32 (scale_hg8 raw'))]
             else []"
  let ?d = "?p @ [Word32 (u32 (num_pixels raw')), Word16 (u16 (num_gains raw'))] @ ts"
  have b: "iobuf' = [(?h, ?d)]"
    unfolding buf z by (simp add: put_sums_head_tokens)
  have np: "s32 (u32 (num_pixels raw')) = 40000"
    using sf assms(3) by (simp add: s32_def u32_def)
  have ib: "get_item_begin [(?h, ?d)] IO_TYPE_HESS_TELADCSUM = (0, ?h, ?d)"
    by (simp add: get_item_begin_def)
  let ?raw = "raw0\<lparr>known := 0, num_pixels := 0\<rparr>"
  have r: "case read_hess_teladc_sums lim [(?h, ?d)] raw0 of
              None \<Rightarrow> data_red_mode raw = 2 \<longleftrightarrow> snd (sums_modes raw 4) \<noteq> 2
            | Some (rc, iobuf1, raw1) \<Rightarrow>
                rc = -1 \<and> iobuf1 = [] \<and> num_pixels raw1 = 0 \<and> known raw1 = 0"
  proof (cases "data_red_mode raw = 2 \<longleftrightarrow> data_red = 2")
    case True
    then have a: "data_red_mode raw' = 2 \<longleftrightarrow> data_red = 2" using sf by simp
    have "\<exists>raw1 rest. get_sums_header ?h ?raw ?d = Some (raw1, rest) \<and>
            num_pixels raw1 = 40000 \<and> known raw1 = 0"
    proof (cases "data_red = 2")
      case two: True
      then show ?thesis
        using a np by (simp add: get_sums_header_def Let_def ff [unfolded two])
    next
      case False
      then show ?thesis
        using a np by (simp add: get_sums_header_def Let_def ff)
    qed
    then obtain raw1 rest where
      h: "get_sums_header ?h ?raw ?d = Some (raw1, rest)"
      and n: "num_pixels raw1 = 40000" "known raw1 = 0"
      by auto
    from get_sums_header_modes [OF h] have "zero_sup_mode raw1 = 2"
      by (simp add: ff)
    with n have "sums_invalid lim raw1"
      by (simp add: sums_invalid_def)
    then have "read_hess_teladc_sums lim [(?h, ?d)] raw0
                 = Some (-1, [], raw1\<lparr>num_pixels := 0\<rparr>)"
      using ib h by (simp add: read_hess_teladc_sums_def Let_def get_item_end_def)
    then show ?thesis using n by simp
  next
    case False
    then have a: "\<not> (data_red_mode raw' = 2 \<longleftrightarrow> data_red = 2)" using sf by simp
    have "get_sums_header ?h ?raw ?d = None"
    proof (cases "data_red = 2")
      case two: True
      then show ?thesis
        using a by (simp add: get_sums_header_def Let_def ff [unfolded two])
    next
      case False
      then show ?thesis
        using a by (simp add: get_sums_header_def Let_def ff)
    qed
    then have "read_hess_teladc_sums lim [(?h, ?d)] raw0 = None"
      using ib by (simp add: read_hess_teladc_sums_def Let_def)
    then show ?thesis using False dr by auto
  qed
  show ?thesis
    using r ff sf unfolding b by (intro exI [of _ ?h] exI [of _ ?d]) simp
qed

theorem sums_40000_pixels_witness:
  "\<exists>h d raw'. write_hess_teladc_sums (\<lambda>j. 0) [] ex_40000_list = Some (0, [(h, d)], raw') \<and>
      version h = 4 \<and>
      (\<exists>raw1. read_hess_teladc_sums \<lparr>H_MAX_PIX = 50000, H_MAX_SLICES = 128\<rparr> [(h, d)] adc_cleared
                 = Some (-1, [], raw1) \<and> num_pixels raw1 = 0)"
proof -
  have f: "known ex_40000_list \<noteq> 0" "num_pixels ex_40000_list = 40000"
    "zero_sup_mode ex_40000_list = 2" "data_red_mode ex_40000_list = 0"
    by (simp_all add: ex_40000_list_def adc_cleared_def)
  have m: "sums_version ex_40000_list = 4" "sums_modes ex_40000_list 4 = (2, 0)"
    by (simp_all add: sums_version_def sums_modes_def ex_40000_list_def adc_cleared_def)
  have "\<not> sums_unsupported ex_40000_list 4 2 0"
    by (simp add: sums_unsupported_def ex_40000_list_def adc_cleared_def)
  with write_sums_accepts [of ex_40000_list "\<lambda>j. 0" "[]"] f m obtain iobuf' raw' where
    w: "write_hess_teladc_sums (\<lambda>j. 0) [] ex_40000_list = Some (0, iobuf', raw')"
    by auto
  from sums_40000_pixels [OF w f(1,2,3), of "\<lparr>H_MAX_PIX = 50000, H_MAX_SLICES = 128\<rparr>" adc_cleared]
  show ?thesis
    unfolding w using f m by (auto split: option.splits)
qed

text \<open>
  Version 4 is not written for every record of 40000 pixels: without zero suppression
  the record has version 3.
\<close>

theorem sums_40000_pixels_counterexample:
  "case write_hess_teladc_sums (\<lambda>j. 0) [] ex_40000_plain of
     None \<Rightarrow> False
   | Some (rc, iobuf, raw) \<Rightarrow> rc = 0 \<and> map (\<lambda>it. version (fst it)) iobuf = [3]"
proof -
  have f: "known ex_40000_plain \<noteq> 0"
    by (simp add: ex_40000_plain_def adc_cleared_def)
  have m: "sums_version ex_40000_plain = 3" "sums_modes ex_40000_plain 3 = (0, 0)"
    by (simp_all add: sums_version_def sums_modes_def ex_40000_plain_def adc_cleared_def)
  have "\<not> sums_unsupported ex_40000_plain 3 0 0"
    by (simp add: sums_unsupported_def ex_40000_plain_def adc_cleared_def)
  with write_sums_accepts [of ex_40000_plain "\<lambda>j. 0" "[]"] f m obtain iobuf' raw' where
    w: "write_hess_teladc_sums (\<lambda>j. 0) [] ex_40000_plain = Some (0, iobuf', raw')"
    by auto
  from write_sums_record [OF w f] show ?thesis
    unfolding w using m by (auto simp: put_sums_head_tokens)
qed

subsection \<open>The 8-bit reduction of the high gain\<close>







subsection \<open>The flags after reading data without zero suppression\<close>

lemma set_fields [simp]:
  "significant (set_significant p v raw) = (significant raw)(p := v)"
  "significant (set_known g p v raw) = significant raw"
  "significant (set_sum g p v raw) = significant raw"
  "adc_known (set_significant p v raw) = adc_known raw"
  "adc_known (set_known g p v raw) = (adc_known raw)(g := (adc_known raw g)(p := v))"
  "adc_known (set_sum g p v raw) = adc_known raw"
  "adc_sum (set_significant p v raw) = adc_sum raw"
  "adc_sum (set_known g p v raw) = adc_sum raw"
  "adc_sum (set_sum g p v raw) = (adc_sum raw)(g := (adc_sum raw g)(p := v))"
  by (simp_all add: set_significant_def set_known_def set_sum_def)

lemma set_header [simp]:
  "num_pixels (set_significant p v raw) = num_pixels raw"
  "num_pixels (set_known g p v raw) = num_pixels raw"
  "num_pixels (set_sum g p v raw) = num_pixels raw"
  "num_gains (set_significant p v raw) = num_gains raw"
  "num_gains (set_known g p v raw) = num_gains raw"
  "num_gains (set_sum g p v raw) = num_gains raw"
  "zero_sup_mode (set_significant p v raw) = zero_sup_mode raw"
  "zero_sup_mode (set_known g p v raw) = zero_sup_mode raw"
  "zero_sup_mode (set_sum g p v raw) = zero_sup_mode raw"
  "data_red_mode (set_significant p v raw) = data_red_mode raw"
  "data_red_mode (set_known g p v raw) = data_red_mode raw"
  "data_red_mode (set_sum g p v raw) = data_red_mode raw"
  by (simp_all add: set_significant_def set_known_def set_sum_def)













lemma sums_init_flags:
  assumes "sums_init raw = Some raw1"
  shows "num_pixels raw1 = num_pixels raw \<and> num_gains raw1 = num_gains raw \<and>
         zero_sup_mode raw1 = zero_sup_mode raw \<and> data_red_mode raw1 = data_red_mode raw \<and>
         (zero_sup_mode raw = 0 \<and> data_red_mode raw = 0 \<longrightarrow>
            (\<forall>p < nat (num_pixels raw). significant raw1 p = 1 \<and>
               (\<forall>g. int g < num_gains raw \<longrightarrow> adc_known raw1 g p = 1)))"
  using assms by (auto simp: sums_init_def Let_def fill_def split: if_splits)





subsection \<open>Sums derived from sampled traces\<close>

lemma set_sample_fields [simp]:
  "adc_sum (set_sample g p vs raw) = adc_sum raw"
  "adc_known (set_sample g p vs raw) = adc_known raw"
  "significant (set_sample g p vs raw) = significant raw"
  "num_samples (set_sample g p vs raw) = num_samples raw"
  "num_pixels (set_sample g p vs raw) = num_pixels raw"
  "num_gains (set_sample g p vs raw) = num_gains raw"
  "adc_sample (set_sample g p vs raw)
     = (adc_sample raw)(g := (adc_sample raw g)(p := store (adc_sample raw g p) 0 vs))"
  by (simp_all add: set_sample_def)

lemma set_counts [simp]:
  "num_samples (set_significant p v raw) = num_samples raw"
  "num_samples (set_known g p v raw) = num_samples raw"
  "num_samples (set_sum g p v raw) = num_samples raw"
  "adc_sample (set_significant p v raw) = adc_sample raw"
  "adc_sample (set_known g p v raw) = adc_sample raw"
  "adc_sample (set_sum g p v raw) = adc_sample raw"
  by (simp_all add: set_significant_def set_known_def set_sum_def)

lemma bit0_facts:
  fixes x :: int
  shows "(x OR 2) AND 1 = x AND 1" "(x AND 1) AND 1 = x AND 1" "x AND 1 \<noteq> 0 \<Longrightarrow> x \<noteq> 0"
  by (auto simp: bit_eq_iff bit_simps)

lemma trace_sum_cong:
  "adc_sample r g p = adc_sample r' g p \<Longrightarrow> num_samples r = num_samples r' \<Longrightarrow>
     trace_sum r g p = trace_sum r' g p"
  by (simp add: trace_sum_def)

text \<open>Invariants of the loops over pixels and gains.\<close>

lemma get_traces_invariant:
  assumes "\<And>ipix r io r' io'. trace ipix r io = Some (r', io') \<Longrightarrow> J r \<Longrightarrow> J r'"
  shows "get_traces trace pixels r io = Some (r', io') \<Longrightarrow> J r \<Longrightarrow> J r'"
  using assms by (induction pixels arbitrary: r io) (auto split: option.splits)

lemma get_gains_invariant:
  assumes "\<And>igain ipix r io r' io'. trace igain ipix r io = Some (r', io') \<Longrightarrow> J r \<Longrightarrow> J r'"
  shows "get_gains trace gains pixels r io = Some (r', io') \<Longrightarrow> J r \<Longrightarrow> J r'"
proof (induction gains arbitrary: r io)
  case Nil
  then show ?case by simp
next
  case (Cons igain gains)
  from Cons.prems(1) obtain r1 io1 where
    1: "get_traces (trace igain) pixels r io = Some (r1, io1)"
    and 2: "get_gains trace gains pixels r1 io1 = Some (r', io')"
    by (auto split: option.splits)
  have "J r1"
    using 1 Cons.prems(2)
    by (rule get_traces_invariant [where trace = "trace igain" and J = J, rotated]) (rule assms)
  then show ?case using Cons.IH [OF 2] by simp
qed

text \<open>A sum that is known is kept by every step of the reader.\<close>

lemma keep_plain_trace:
  assumes "get_plain_trace ver what igain ipix r io = Some (r', io')"
    and "adc_sum r g p = s \<and> adc_known r g p AND 1 = k \<and> k \<noteq> 0"
  shows "adc_sum r' g p = s \<and> adc_known r' g p AND 1 = k \<and> k \<noteq> 0"
  using assms bit0_facts(3) [of "adc_known r g p"]
  by (auto simp: get_plain_trace_def Let_def bit0_facts split: option.splits if_splits)

lemma keep_zs_trace:
  assumes "get_zs_trace lim what igain ipix r io = Some (r', io')"
    and "adc_sum r g p = s \<and> adc_known r g p AND 1 = k \<and> k \<noteq> 0"
  shows "adc_sum r' g p = s \<and> adc_known r' g p AND 1 = k \<and> k \<noteq> 0"
  using assms bit0_facts(3) [of "adc_known r g p"]
  by (auto simp: get_zs_trace_def Let_def bit0_facts split: option.splits if_splits)

lemma keep_hg_lg_trace:
  assumes "get_hg_trace lim ipix r io = Some (r', io') \<or> get_lg_trace lim ipix r io = Some (r', io')"
    and "adc_sum r g p = s \<and> adc_known r g p AND 1 = k \<and> k \<noteq> 0"
  shows "adc_sum r' g p = s \<and> adc_known r' g p AND 1 = k \<and> k \<noteq> 0"
  using assms
  by (auto simp: get_hg_trace_def get_lg_trace_def Let_def bit0_facts split: option.splits if_splits)

lemma keep_header:
  "get_samples_header item_header r io = Some (r', io') \<Longrightarrow>
     adc_sum r' = adc_sum r \<and> adc_known r' = adc_known r"
  by (auto simp: get_samples_header_def Let_def split: option.splits if_splits)

lemma keep_clear:
  "adc_sum (clear_sample_bits r) = adc_sum r \<and>
   adc_known (clear_sample_bits r) g p AND 1 = adc_known r g p AND 1"
  by (simp add: clear_sample_bits_def Let_def bit0_facts)


lemma keep_zs_samples:
  assumes "get_zs_samples lim what data_red r dat = Some (b, r')"
    and "adc_sum r g p = s \<and> adc_known r g p AND 1 = k \<and> k \<noteq> 0"
  shows "adc_sum r' g p = s \<and> adc_known r' g p AND 1 = k \<and> k \<noteq> 0"
proof -
  let ?J = "\<lambda>r. adc_sum r g p = s \<and> adc_known r g p AND 1 = k \<and> k \<noteq> 0"
  let ?c = "clear_sample_bits r"
  have c: "?J ?c"
    using assms(2) keep_clear [of r g p] by simp
  have hg: "?J r2" if "get_traces (get_hg_trace lim) pixels r1 io = Some (r2, io')" "?J r1"
    for pixels r1 io r2 io'
  proof (rule get_traces_invariant [where J = ?J, OF _ that])
    fix ipix r io r' io' assume "get_hg_trace lim ipix r io = Some (r', io')" "?J r"
    then show "?J r'" using keep_hg_lg_trace [of lim ipix r io r' io' g p s k] by blast
  qed
  have lg: "?J r2" if "get_traces (get_lg_trace lim) pixels r1 io = Some (r2, io')" "?J r1"
    for pixels r1 io r2 io'
  proof (rule get_traces_invariant [where J = ?J, OF _ that])
    fix ipix r io r' io' assume "get_lg_trace lim ipix r io = Some (r', io')" "?J r"
    then show "?J r'" using keep_hg_lg_trace [of lim ipix r io r' io' g p s k] by blast
  qed
  have zs: "?J r2" if "get_gains (get_zs_trace lim what) gains pixels r1 io = Some (r2, io')" "?J r1"
    for gains pixels r1 io r2 io'
  proof (rule get_gains_invariant [where J = ?J, OF _ that])
    fix igain ipix r io r' io' assume "get_zs_trace lim what igain ipix r io = Some (r', io')" "?J r"
    then show "?J r'" by (rule keep_zs_trace)
  qed
  from assms(1) obtain n dat2 where
    n: "get_scount32 dat = Some (n, dat2)"
    by (cases "get_scount32 dat") (auto simp: get_zs_samples_def Let_def)
  show ?thesis
  proof (cases "n > H_MAX_PIX lim")
    case True
    with assms(1) n have "r' = ?c" by (simp add: get_zs_samples_def Let_def)
    with c show ?thesis by simp
  next
    case False
    with assms(1) n obtain pixel_list dat3 where
      l: "get_ranges (nat n) dat2 = Some (pixel_list, dat3)"
      by (cases "get_ranges (nat n) dat2") (auto simp: get_zs_samples_def Let_def)
    show ?thesis
    proof (cases "data_red \<noteq> 0 \<and> num_gains ?c > 1")
      case dr: True
      with assms(1) n False l obtain m dat4 where
        m: "get_scount32 dat3 = Some (m, dat4)"
        by (cases "get_scount32 dat3") (auto simp: get_zs_samples_def Let_def)
      show ?thesis
      proof (cases "m > H_MAX_PIX lim")
        case True
        with assms(1) n False l dr m have "r' = ?c" by (simp add: get_zs_samples_def Let_def)
        with c show ?thesis by simp
      next
        case m2: False
        with assms(1) n False l dr m obtain pixel_list_lg dat5 where
          l2: "get_ranges (nat m) dat4 = Some (pixel_list_lg, dat5)"
          by (cases "get_ranges (nat m) dat4") (auto simp: get_zs_samples_def Let_def)
        with assms(1) n False l dr m m2 obtain r3 dat6 where
          t1: "get_traces (get_hg_trace lim) (list_pixels pixel_list) ?c dat5 = Some (r3, dat6)"
          by (cases "get_traces (get_hg_trace lim) (list_pixels pixel_list) ?c dat5")
             (auto simp: get_zs_samples_def Let_def)
        with assms(1) n False l dr m m2 l2 obtain dat7 where
          t2: "get_traces (get_lg_trace lim) (list_pixels pixel_list_lg) r3 dat6 = Some (r', dat7)"
          by (cases "get_traces (get_lg_trace lim) (list_pixels pixel_list_lg) r3 dat6")
             (auto simp: get_zs_samples_def Let_def)
        from lg [OF t2 hg [OF t1 c]] show ?thesis .
      qed
    next
      case dr: False
      with assms(1) n False l obtain dat4 where
        "get_gains (get_zs_trace lim what) [0..<nat (num_gains ?c)] (list_pixels pixel_list) ?c dat3
           = Some (r', dat4)"
        by (cases "get_gains (get_zs_trace lim what) [0..<nat (num_gains ?c)]
                     (list_pixels pixel_list) ?c dat3")
           (auto simp: get_zs_samples_def Let_def)
      from zs [OF this c] show ?thesis .
    qed
  qed
qed

lemma keep_plain_samples:
  assumes "get_plain_samples ver what r dat = Some r'"
    and "adc_sum r g p = s \<and> adc_known r g p AND 1 = k \<and> k \<noteq> 0"
  shows "adc_sum r' g p = s \<and> adc_known r' g p AND 1 = k \<and> k \<noteq> 0"
proof -
  let ?J = "\<lambda>r. adc_sum r g p = s \<and> adc_known r g p AND 1 = k \<and> k \<noteq> 0"
  have pl: "?J r2"
    if "get_gains (get_plain_trace ver what) gains pixels r1 io = Some (r2, io')" "?J r1"
    for gains pixels r1 io r2 io'
  proof (rule get_gains_invariant [where J = ?J, OF _ that])
    fix igain ipix r io r' io'
    assume "get_plain_trace ver what igain ipix r io = Some (r', io')" "?J r"
    then show "?J r'" by (rule keep_plain_trace)
  qed
  from assms(1) obtain r2 dat2 where
    g: "get_gains (get_plain_trace ver what) [0..<nat (num_gains r)] [0..<nat (num_pixels r)] r dat
          = Some (r2, dat2)"
    and r': "r' = r2\<lparr>significant := fill (significant r2) (nat (num_pixels r2)) 1\<rparr>"
    by (auto simp: get_plain_samples_def split: option.splits)
  from pl [OF g assms(2)] r' show ?thesis by simp
qed

text \<open>The outcomes of the reader of the samples.\<close>

lemma read_samples_cases:
  assumes "read_hess_teladc_samples lim iobuf raw what = Some (rc, iobuf', raw')"
  obtains (refused) "raw' = raw\<lparr>num_pixels := 0\<rparr>" "rc < 0"
  | (limits) item_header dat raw1 dat1 where
      "get_samples_header item_header (raw\<lparr>num_pixels := 0\<rparr>) dat = Some (raw1, dat1)"
      "raw' = raw1\<lparr>num_pixels := 0\<rparr>" "rc < 0"
  | (suppressed) item_header dat raw1 dat1 b raw2 where
      "get_item_begin iobuf IO_TYPE_HESS_TELADCSAMP = (0, item_header, dat)"
      "u32 (ident item_header) AND 0x1f \<noteq> 0"
      "get_samples_header item_header (raw\<lparr>num_pixels := 0\<rparr>) dat = Some (raw1, dat1)"
      "get_zs_samples lim what 0 raw1 dat1 = Some (b, raw2)"
      "raw' = (if b then raw2\<lparr>known := known raw2 OR 2\<rparr> else raw2)"
      "rc = (if b then 0 else -1)"
      "num_gains raw1 \<le> H_MAX_GAINS"
  | (plain) item_header dat raw1 dat1 raw2 where
      "get_item_begin iobuf IO_TYPE_HESS_TELADCSAMP = (0, item_header, dat)"
      "u32 (ident item_header) AND 0x1f = 0"
      "get_samples_header item_header (raw\<lparr>num_pixels := 0\<rparr>) dat = Some (raw1, dat1)"
      "get_plain_samples (version item_header) what raw1 dat1 = Some raw2"
      "raw' = raw2\<lparr>known := known raw2 OR 2\<rparr>" "rc = 0"
proof -
  obtain rc0 item_header dat where
    ib: "get_item_begin iobuf IO_TYPE_HESS_TELADCSAMP = (rc0, item_header, dat)"
    by (cases "get_item_begin iobuf IO_TYPE_HESS_TELADCSAMP")
  have rc0: "rc0 = 0 \<or> rc0 < 0"
    using ib by (auto simp: get_item_begin_def split: list.splits if_splits)
  let ?R = "raw\<lparr>num_pixels := 0\<rparr>"
  let ?zs = "u32 (ident item_header) AND 0x1f"
  let ?dr = "drop_bit 5 (u32 (ident item_header)) AND 0x1f"
  let ?refuse = "rc0 < 0 \<or> version item_header > 3 \<or> (?zs \<noteq> 0 \<and> version item_header < 3) \<or>
                 ?dr \<noteq> 0 \<or> drop_bit 10 (u32 (ident item_header)) AND 0x01 \<noteq> 0"
  show ?thesis
  proof (cases ?refuse)
    case True
    with assms ib have "raw' = ?R" "rc < 0"
      by (auto simp: read_hess_teladc_samples_def Let_def split: if_splits)
    then show ?thesis by (rule refused)
  next
    case ok: False
    with rc0 have rc00: "rc0 = 0" by auto
    from assms ib ok obtain raw1 dat1 where
      h: "get_samples_header item_header ?R dat = Some (raw1, dat1)"
      by (cases "get_samples_header item_header ?R dat")
         (auto simp: read_hess_teladc_samples_def Let_def)
    let ?lim = "num_pixels raw1 > H_MAX_PIX lim \<or> num_gains raw1 > H_MAX_GAINS \<or>
                   num_samples raw1 > H_MAX_SLICES lim"
    show ?thesis
    proof (cases ?lim)
      case True
      with assms ib ok h have "raw' = raw1\<lparr>num_pixels := 0\<rparr>" "rc < 0"
        by (auto simp: read_hess_teladc_samples_def Let_def)
      with h show ?thesis by (rule limits)
    next
      case lim: False
      show ?thesis
      proof (cases "?zs = 0")
        case True
        with assms ib ok h lim obtain raw2 where
          "get_plain_samples (version item_header) what raw1 dat1 = Some raw2"
          "raw' = raw2\<lparr>known := known raw2 OR 2\<rparr>" "rc = 0"
          by (cases "get_plain_samples (version item_header) what raw1 dat1")
             (auto simp: read_hess_teladc_samples_def Let_def get_item_end_def)
        with ib rc00 True h show ?thesis by (intro plain) auto
      next
        case False
        with assms ib ok h lim obtain b raw2 where
          "get_zs_samples lim what ?dr raw1 dat1 = Some (b, raw2)"
          "raw' = (if b then raw2\<lparr>known := known raw2 OR 2\<rparr> else raw2)"
          "rc = (if b then 0 else -1)"
          by (cases "get_zs_samples lim what ?dr raw1 dat1")
             (auto simp: read_hess_teladc_samples_def Let_def get_item_end_def split: if_splits)
        moreover from ok have "?dr = 0" by simp
        moreover from lim have "num_gains raw1 \<le> H_MAX_GAINS" by simp
        ultimately show ?thesis using ib rc00 False h by (intro suppressed) auto
      qed
    qed
  qed
qed

lemma samples_keep_known_sums:
  assumes "read_hess_teladc_samples lim iobuf raw what = Some (rc, iobuf', raw')"
    and "adc_known raw g p AND 1 \<noteq> 0"
  shows "adc_sum raw' g p = adc_sum raw g p \<and> adc_known raw' g p AND 1 = adc_known raw g p AND 1"
proof -
  let ?J = "\<lambda>r. adc_sum r g p = adc_sum raw g p \<and>
                adc_known r g p AND 1 = adc_known raw g p AND 1 \<and> adc_known raw g p AND 1 \<noteq> 0"
  have h: "?J r1" if "get_samples_header item_header (raw\<lparr>num_pixels := 0\<rparr>) io = Some (r1, io1)"
    for item_header io r1 io1
    using assms(2) keep_header [OF that] by simp
  from assms(1) have "?J raw'"
  proof (cases rule: read_samples_cases)
    case refused
    then show ?thesis using assms(2) by simp
  next
    case (limits item_header dat raw1 dat1)
    then show ?thesis using h [OF limits(1)] by simp
  next
    case (suppressed item_header dat raw1 dat1 b raw2)
    from keep_zs_samples [OF suppressed(4) h [OF suppressed(3)]] suppressed(5)
    show ?thesis by simp
  next
    case (plain item_header dat raw1 dat1 raw2)
    from keep_plain_samples [OF plain(4) h [OF plain(3)]] plain(5)
    show ?thesis by simp
  qed
  then show ?thesis by simp
qed


text \<open>
  Sums derived from the traces. The loops over gains and pixels are treated once, for a
  function \<open>t\<close> that reads one trace, leaves the other pixels and gains alone and sums
  up the trace of a pixel for which nothing is known.
\<close>

lemma traces_sum:
  assumes other: "\<And>g' p' x io x' io'. t g' p' x io = Some (x', io') \<Longrightarrow> g' \<noteq> g \<or> p' \<noteq> p \<Longrightarrow>
      adc_sum x' g p = adc_sum x g p \<and> adc_sample x' g p = adc_sample x g p \<and>
      adc_known x' g p = adc_known x g p"
    and keep: "\<And>g' p' x io x' io'. t g' p' x io = Some (x', io') \<Longrightarrow> num_samples x' = num_samples x"
    and same: "\<And>x io x' io'. t g p x io = Some (x', io') \<Longrightarrow> adc_known x g p = 0 \<Longrightarrow>
      adc_sum x' g p = trace_sum x' g p \<and> adc_known x' g p \<noteq> 0"
  shows "get_traces (t g') pixels r io = Some (r', io') \<Longrightarrow>
     num_samples r' = num_samples r \<and>
     (g' \<noteq> g \<or> p \<notin> set pixels \<longrightarrow>
        adc_sum r' g p = adc_sum r g p \<and> adc_sample r' g p = adc_sample r g p \<and>
        adc_known r' g p = adc_known r g p) \<and>
     (g' = g \<and> p \<in> set pixels \<and> distinct pixels \<and> adc_known r g p = 0 \<longrightarrow>
        adc_sum r' g p = trace_sum r' g p \<and> adc_known r' g p \<noteq> 0)"
proof (induction pixels arbitrary: r io)
  case Nil
  then show ?case by simp
next
  case (Cons p' pixels)
  from Cons.prems obtain r1 io1 where
    1: "t g' p' r io = Some (r1, io1)"
    and 2: "get_traces (t g') pixels r1 io1 = Some (r', io')"
    by (auto split: option.splits)
  note ih = Cons.IH [OF 2]
  have n: "num_samples r' = num_samples r"
    using ih keep [OF 1] by simp
  show ?case
  proof (cases "g' = g \<and> p' = p")
    case True
    have "adc_sum r' g p = trace_sum r' g p \<and> adc_known r' g p \<noteq> 0"
      if "distinct (p' # pixels)" "adc_known r g p = 0"
    proof -
      from same [of r io r1 io1] 1 True that
      have s: "adc_sum r1 g p = trace_sum r1 g p" "adc_known r1 g p \<noteq> 0" by simp_all
      from that True have "p \<notin> set pixels" by simp
      with ih have k: "adc_sum r' g p = adc_sum r1 g p" "adc_sample r' g p = adc_sample r1 g p"
        "adc_known r' g p = adc_known r1 g p" "num_samples r' = num_samples r1"
        by simp_all
      from trace_sum_cong [OF k(2,4)] s k show ?thesis by simp
    qed
    then show ?thesis using True n by simp
  next
    case False
    then have "g' \<noteq> g \<or> p' \<noteq> p" by simp
    from other [OF 1 this] ih n show ?thesis
      using False by auto
  qed
qed

lemma gains_sum:
  assumes other: "\<And>g' p' x io x' io'. t g' p' x io = Some (x', io') \<Longrightarrow> g' \<noteq> g \<or> p' \<noteq> p \<Longrightarrow>
      adc_sum x' g p = adc_sum x g p \<and> adc_sample x' g p = adc_sample x g p \<and>
      adc_known x' g p = adc_known x g p"
    and keep: "\<And>g' p' x io x' io'. t g' p' x io = Some (x', io') \<Longrightarrow> num_samples x' = num_samples x"
    and same: "\<And>x io x' io'. t g p x io = Some (x', io') \<Longrightarrow> adc_known x g p = 0 \<Longrightarrow>
      adc_sum x' g p = trace_sum x' g p \<and> adc_known x' g p \<noteq> 0"
  shows "get_gains t gains pixels r io = Some (r', io') \<Longrightarrow>
     num_samples r' = num_samples r \<and>
     (g \<notin> set gains \<or> p \<notin> set pixels \<longrightarrow>
        adc_sum r' g p = adc_sum r g p \<and> adc_sample r' g p = adc_sample r g p \<and>
        adc_known r' g p = adc_known r g p) \<and>
     (g \<in> set gains \<and> distinct gains \<and> p \<in> set pixels \<and> distinct pixels \<and>
      adc_known r g p = 0 \<longrightarrow>
        adc_sum r' g p = trace_sum r' g p \<and> adc_known r' g p \<noteq> 0)"
proof (induction gains arbitrary: r io)
  case Nil
  then show ?case by simp
next
  case (Cons g' gains)
  from Cons.prems obtain r1 io1 where
    1: "get_traces (t g') pixels r io = Some (r1, io1)"
    and 2: "get_gains t gains pixels r1 io1 = Some (r', io')"
    by (auto split: option.splits)
  note ih = Cons.IH [OF 2]
  note tr = traces_sum [of t g p, OF other keep same 1]
  show ?case
  proof (cases "g' = g")
    case True
    have "adc_sum r' g p = trace_sum r' g p \<and> adc_known r' g p \<noteq> 0"
      if "distinct (g' # gains)" "p \<in> set pixels" "distinct pixels" "adc_known r g p = 0"
    proof -
      from tr True that have s: "adc_sum r1 g p = trace_sum r1 g p" "adc_known r1 g p \<noteq> 0"
        by simp_all
      from that True have "g \<notin> set gains" by simp
      with ih have k: "adc_sum r' g p = adc_sum r1 g p" "adc_sample r' g p = adc_sample r1 g p"
        "adc_known r' g p = adc_known r1 g p" "num_samples r' = num_samples r1"
        by simp_all
      from trace_sum_cong [OF k(2,4)] s k show ?thesis by simp
    qed
    then show ?thesis using True tr ih by auto
  next
    case False
    with tr ih show ?thesis by auto
  qed
qed

lemma plain_trace_other:
  assumes "get_plain_trace ver what g' p' r io = Some (r', io')" and "g' \<noteq> g \<or> p' \<noteq> p"
  shows "adc_sum r' g p = adc_sum r g p \<and> adc_sample r' g p = adc_sample r g p \<and>
         adc_known r' g p = adc_known r g p"
  using assms
  by (auto simp: get_plain_trace_def Let_def split: option.splits if_splits)

lemma plain_trace_samples:
  "get_plain_trace ver what g' p' r io = Some (r', io') \<Longrightarrow> num_samples r' = num_samples r"
  by (auto simp: get_plain_trace_def Let_def split: option.splits if_splits)

lemma plain_trace_same:
  assumes "what AND RAWSUM_FLAG \<noteq> 0"
    and "get_plain_trace ver what g p r io = Some (r', io')" and "adc_known r g p = 0"
  shows "adc_sum r' g p = trace_sum r' g p \<and> adc_known r' g p \<noteq> 0"
proof -
  from assms obtain vs where
    r': "r' = set_known g p (adc_known (set_known g p 1
                (set_sum g p (trace_sum (set_sample g p vs r) g p) (set_sample g p vs r))) g p OR 2)
              (set_known g p 1
                (set_sum g p (trace_sum (set_sample g p vs r) g p) (set_sample g p vs r)))"
    by (auto simp: get_plain_trace_def Let_def split: option.splits if_splits)
  have "trace_sum r' g p = trace_sum (set_sample g p vs r) g p"
    unfolding r' by (rule trace_sum_cong) simp_all
  then show ?thesis
    unfolding r' by simp
qed

lemma zs_trace_other:
  assumes "get_zs_trace lim what g' p' r io = Some (r', io')" and "g' \<noteq> g \<or> p' \<noteq> p"
  shows "adc_sum r' g p = adc_sum r g p \<and> adc_sample r' g p = adc_sample r g p \<and>
         adc_known r' g p = adc_known r g p"
  using assms
  by (auto simp: get_zs_trace_def Let_def split: option.splits if_splits)

lemma zs_trace_samples:
  "get_zs_trace lim what g' p' r io = Some (r', io') \<Longrightarrow> num_samples r' = num_samples r"
  by (auto simp: get_zs_trace_def Let_def split: option.splits if_splits)

lemma zs_trace_same:
  assumes "what AND RAWSUM_FLAG \<noteq> 0"
    and "get_zs_trace lim what g p r io = Some (r', io')" and "adc_known r g p = 0"
  shows "adc_sum r' g p = trace_sum r' g p \<and> adc_known r' g p \<noteq> 0"
proof -
  from assms obtain vs where
    r': "r' = set_known g p (adc_known (set_known g p 1
                (set_sum g p (trace_sum (set_significant p (significant r p OR 0x20)
                   (set_sample g p vs r)) g p)
                   (set_significant p (significant r p OR 0x20) (set_sample g p vs r)))) g p OR 2)
              (set_known g p 1
                (set_sum g p (trace_sum (set_significant p (significant r p OR 0x20)
                   (set_sample g p vs r)) g p)
                   (set_significant p (significant r p OR 0x20) (set_sample g p vs r))))"
    by (auto simp: get_zs_trace_def Let_def split: option.splits if_splits)
  have "trace_sum r' g p
          = trace_sum (set_significant p (significant r p OR 0x20) (set_sample g p vs r)) g p"
    unfolding r' by (rule trace_sum_cong) simp_all
  then show ?thesis
    unfolding r' by simp
qed

lemma plain_samples_sum:
  assumes "get_plain_samples ver what r dat = Some r'" and "what AND RAWSUM_FLAG \<noteq> 0"
    and "adc_known r g p = 0" and "int g < num_gains r" and "int p < num_pixels r"
  shows "adc_sum r' g p = trace_sum r' g p \<and> num_pixels r' = num_pixels r"
proof -
  let ?J = "\<lambda>x. num_pixels x = num_pixels r"
  from assms(1) obtain r2 dat2 where
    g: "get_gains (get_plain_trace ver what) [0..<nat (num_gains r)] [0..<nat (num_pixels r)] r dat
          = Some (r2, dat2)"
    and r': "r' = r2\<lparr>significant := fill (significant r2) (nat (num_pixels r2)) 1\<rparr>"
    by (auto simp: get_plain_samples_def split: option.splits)
  have "?J r2"
  proof (rule get_gains_invariant [where J = ?J, OF _ g])
    fix igain ipix x io x' io'
    assume "get_plain_trace ver what igain ipix x io = Some (x', io')" "?J x"
    then show "?J x'"
      by (auto simp: get_plain_trace_def Let_def split: option.splits if_splits)
  qed simp
  moreover have "g < nat (num_gains r)" "p < nat (num_pixels r)"
    using assms(4,5) by linarith+
  with gains_sum [where t = "get_plain_trace ver what" and g = g and p = p, OF _ _ _ g] assms(2,3)
  have "adc_sum r2 g p = trace_sum r2 g p"
    by (simp add: plain_trace_other plain_trace_samples plain_trace_same)
  moreover have "trace_sum r' g p = trace_sum r2 g p"
    unfolding r' by (rule trace_sum_cong) simp_all
  ultimately show ?thesis by (simp add: r')
qed

lemma zs_samples_sum:
  assumes "get_zs_samples lim what 0 r dat = Some (True, r')" and "what AND RAWSUM_FLAG \<noteq> 0"
    and "get_scount32 dat = Some (n, dat2)" and "get_ranges (nat n) dat2 = Some (pixel_list, dat3)"
    and "distinct (list_pixels pixel_list)" and "p \<in> set (list_pixels pixel_list)"
    and "adc_known r g p AND 1 = 0" and "int g < num_gains r" and "num_gains r \<le> H_MAX_GAINS"
    and "int p < num_pixels r"
  shows "adc_sum r' g p = trace_sum r' g p"
proof -
  let ?c = "clear_sample_bits r"
  have b: "g < nat (num_gains r)" "p < nat (num_pixels r)" "g < 2"
    using assms(8-10) by (simp_all add: H_MAX_GAINS_def)
  have c: "num_gains ?c = num_gains r" "adc_known ?c g p = 0"
    using assms(7) b by (simp_all add: clear_sample_bits_def Let_def)
  from assms(1,3,4) obtain dat4 where
    g: "get_gains (get_zs_trace lim what) [0..<nat (num_gains r)] (list_pixels pixel_list) ?c dat3
          = Some (r', dat4)"
    by (auto simp: get_zs_samples_def Let_def c split: option.splits if_splits)
  from gains_sum [where t = "get_zs_trace lim what" and g = g and p = p, OF _ _ _ g]
    assms(2,5,6) b c(2)
  show ?thesis
    by (simp add: zs_trace_other zs_trace_samples zs_trace_same)
qed


lemma plain_samples_counts:
  assumes "get_plain_samples ver what r dat = Some r'"
  shows "num_pixels r' = num_pixels r \<and> num_gains r' = num_gains r"
proof -
  let ?J = "\<lambda>x. num_pixels x = num_pixels r \<and> num_gains x = num_gains r"
  from assms obtain r2 dat2 where
    g: "get_gains (get_plain_trace ver what) [0..<nat (num_gains r)] [0..<nat (num_pixels r)] r dat
          = Some (r2, dat2)"
    and r': "r' = r2\<lparr>significant := fill (significant r2) (nat (num_pixels r2)) 1\<rparr>"
    by (auto simp: get_plain_samples_def split: option.splits)
  have "?J r2"
  proof (rule get_gains_invariant [where J = ?J, OF _ g])
    fix igain ipix x io x' io'
    assume "get_plain_trace ver what igain ipix x io = Some (x', io')" "?J x"
    then show "?J x'"
      by (auto simp: get_plain_trace_def Let_def split: option.splits if_splits)
  qed simp
  then show ?thesis by (simp add: r')
qed

text \<open>
  Claim C9. Whenever \<^verbatim>\<open>read_hess_teladc_samples\<close> returns, a pixel and gain with bit 0
  of \<^verbatim>\<open>adc_known\<close> set before the call has kept its \<^verbatim>\<open>adc_sum\<close> and that bit. With
  \<^verbatim>\<open>RAWSUM_FLAG\<close> passed, a record with zero suppression that was read completely
  gives the sum of its decoded trace to every pixel of its pixel list below
  \<^verbatim>\<open>num_pixels\<close> with bit 0 of \<^verbatim>\<open>adc_known\<close> clear, when no pixel occurs twice in the
  list. A record without zero suppression gives that sum to the pixels and gains of the
  record for which no bit of \<^verbatim>\<open>adc_known\<close> at all was set before.
\<close>

theorem samples_sums:
  assumes "read_hess_teladc_samples lim iobuf raw what = Some (rc, iobuf', raw')"
  shows "(adc_known raw g p AND 1 \<noteq> 0 \<longrightarrow>
            adc_sum raw' g p = adc_sum raw g p \<and>
            adc_known raw' g p AND 1 = adc_known raw g p AND 1) \<and>
         (what AND RAWSUM_FLAG \<noteq> 0 \<and>
          get_item_begin iobuf IO_TYPE_HESS_TELADCSAMP = (0, item_header, dat) \<and>
          u32 (ident item_header) AND 0x1f = 0 \<and>
          adc_known raw g p = 0 \<and> int g < num_gains raw' \<and> int p < num_pixels raw' \<longrightarrow>
            adc_sum raw' g p = trace_sum raw' g p) \<and>
         (what AND RAWSUM_FLAG \<noteq> 0 \<and> rc = 0 \<and>
          get_item_begin iobuf IO_TYPE_HESS_TELADCSAMP = (0, item_header, dat) \<and>
          u32 (ident item_header) AND 0x1f \<noteq> 0 \<and>
          get_samples_header item_header (raw\<lparr>num_pixels := 0\<rparr>) dat = Some (raw1, dat1) \<and>
          get_scount32 dat1 = Some (n, dat2) \<and>
          get_ranges (nat n) dat2 = Some (pixel_list, dat3) \<and>
          distinct (list_pixels pixel_list) \<and> p \<in> set (list_pixels pixel_list) \<and>
          adc_known raw g p AND 1 = 0 \<and> int g < num_gains raw1 \<and> int p < num_pixels raw1 \<longrightarrow>
            adc_sum raw' g p = trace_sum raw' g p)"
proof (intro conjI impI)
  assume "adc_known raw g p AND 1 \<noteq> 0"
  with assms show "adc_sum raw' g p = adc_sum raw g p"
    and "adc_known raw' g p AND 1 = adc_known raw g p AND 1"
    by (simp_all add: samples_keep_known_sums)
next
  assume b: "what AND RAWSUM_FLAG \<noteq> 0 \<and>
          get_item_begin iobuf IO_TYPE_HESS_TELADCSAMP = (0, item_header, dat) \<and>
          u32 (ident item_header) AND 0x1f = 0 \<and>
          adc_known raw g p = 0 \<and> int g < num_gains raw' \<and> int p < num_pixels raw'"
  from assms show "adc_sum raw' g p = trace_sum raw' g p"
  proof (cases rule: read_samples_cases)
    case refused
    with b show ?thesis by simp
  next
    case (limits h x r1 x1)
    with b show ?thesis by simp
  next
    case (suppressed h x r1 x1 c r2)
    with b show ?thesis by simp
  next
    case (plain h x r1 x1 r2)
    from keep_header [OF plain(3)] b have k: "adc_known r1 g p = 0" by simp
    from plain_samples_counts [OF plain(4)] b plain(5)
    have c: "int g < num_gains r1" "int p < num_pixels r1" by simp_all
    from plain_samples_sum [OF plain(4) _ k c] b
    have "adc_sum r2 g p = trace_sum r2 g p" by simp
    moreover have "trace_sum raw' g p = trace_sum r2 g p"
      unfolding plain(5) by (rule trace_sum_cong) simp_all
    ultimately show ?thesis by (simp add: plain(5))
  qed
next
  assume b: "what AND RAWSUM_FLAG \<noteq> 0 \<and> rc = 0 \<and>
          get_item_begin iobuf IO_TYPE_HESS_TELADCSAMP = (0, item_header, dat) \<and>
          u32 (ident item_header) AND 0x1f \<noteq> 0 \<and>
          get_samples_header item_header (raw\<lparr>num_pixels := 0\<rparr>) dat = Some (raw1, dat1) \<and>
          get_scount32 dat1 = Some (n, dat2) \<and>
          get_ranges (nat n) dat2 = Some (pixel_list, dat3) \<and>
          distinct (list_pixels pixel_list) \<and> p \<in> set (list_pixels pixel_list) \<and>
          adc_known raw g p AND 1 = 0 \<and> int g < num_gains raw1 \<and> int p < num_pixels raw1"
  from assms show "adc_sum raw' g p = trace_sum raw' g p"
  proof (cases rule: read_samples_cases)
    case refused
    with b show ?thesis by simp
  next
    case (limits h x r1 x1)
    with b show ?thesis by simp
  next
    case (plain h x r1 x1 r2)
    with b show ?thesis by simp
  next
    case (suppressed h x r1 x1 c r2)
    from suppressed(1,3) b have e: "h = item_header" "r1 = raw1" "x1 = dat1" by simp_all
    from suppressed(6) b have c: "c" by (simp split: if_splits)
    from keep_header [OF suppressed(3)] b have k: "adc_known raw1 g p AND 1 = 0"
      by (simp add: e)
    from suppressed(4) have z: "get_zs_samples lim what 0 raw1 dat1 = Some (True, r2)"
      by (simp add: e c)
    from b have w: "what AND RAWSUM_FLAG \<noteq> 0"
      and l: "get_scount32 dat1 = Some (n, dat2)" "get_ranges (nat n) dat2 = Some (pixel_list, dat3)"
        "distinct (list_pixels pixel_list)" "p \<in> set (list_pixels pixel_list)"
      and m: "int g < num_gains raw1" "int p < num_pixels raw1"
      by simp_all
    from suppressed(7) have "num_gains raw1 \<le> H_MAX_GAINS" by (simp add: e)
    from zs_samples_sum [OF z w l k m(1) this m(2)]
    have "adc_sum r2 g p = trace_sum r2 g p" .
    moreover have "trace_sum raw' g p = trace_sum r2 g p"
      unfolding suppressed(5) using c by (intro trace_sum_cong) simp_all
    ultimately show ?thesis using c by (simp add: suppressed(5))
  qed
qed

text \<open>
  The branch without zero suppression tests the whole of \<^verbatim>\<open>adc_known\<close> (line 4909),
  where the branch with zero suppression clears the sample-mode bits first (lines 4775 to
  4777): a pixel of which only samples were known before, bit 1 of \<^verbatim>\<open>adc_known\<close> set
  and bit 0 clear, gets no sum from its decoded trace in a record without zero
  suppression.
\<close>

theorem samples_sums_counterexample:
  "adc_known ex_samples_seen 0 1 AND 1 = 0 \<and>
   (case read_hess_teladc_samples ex_lim ex_samples_record ex_samples_seen 3 of
      None \<Rightarrow> False
    | Some (rc, iobuf', raw') \<Rightarrow>
        rc = 0 \<and> num_pixels raw' = 2 \<and> num_gains raw' = 1 \<and>
        map (adc_sample raw' 0 1) [0, 1] = [1, 4] \<and> trace_sum raw' 0 1 = 5 \<and>
        adc_sum raw' 0 1 = 0)"
  by code_simp

theorem samples_sums_witness:
  "(case read_hess_teladc_samples ex_lim ex_samples_record ex_sum_known 3 of
      None \<Rightarrow> False
    | Some (rc, iobuf', raw') \<Rightarrow>
        rc = 0 \<and> adc_sum raw' 0 0 = 99 \<and> adc_sum raw' 0 1 = trace_sum raw' 0 1) \<and>
   (case read_hess_teladc_samples ex_lim ex_samples_zs_record ex_samples_seen 3 of
      None \<Rightarrow> False
    | Some (rc, iobuf', raw') \<Rightarrow> rc = 0 \<and> adc_sum raw' 0 1 = trace_sum raw' 0 1)"
proof -
  have "map_option (\<lambda>(rc, iobuf', raw'). (rc, num_pixels raw', num_gains raw'))
          (read_hess_teladc_samples ex_lim ex_samples_record ex_sum_known 3) = Some (0, 2, 1)"
    by code_simp
  then obtain iobuf' raw' where
    r: "read_hess_teladc_samples ex_lim ex_samples_record ex_sum_known 3 = Some (0, iobuf', raw')"
    and n: "num_pixels raw' = 2" "num_gains raw' = 1"
    by (cases "read_hess_teladc_samples ex_lim ex_samples_record ex_sum_known 3") auto
  have k: "adc_known ex_sum_known 0 0 AND 1 \<noteq> 0" "adc_sum ex_sum_known 0 0 = 99"
    "adc_known ex_sum_known 0 1 = 0"
    by (simp_all add: ex_sum_known_def adc_cleared_def)
  have b: "get_item_begin ex_samples_record IO_TYPE_HESS_TELADCSAMP
             = (0, \<lparr>type = 2013, version = 3, ident = 0\<rparr>,
                [Word32 2, Word16 1, Word16 2, SCount 5, SCount 2, SCount 1, SCount 3])"
    by (simp add: get_item_begin_def ex_samples_record_def IO_TYPE_HESS_TELADCSAMP_def)
  have i: "u32 (ident \<lparr>type = 2013, version = 3, ident = 0\<rparr>) AND 0x1f = 0"
    by (simp add: u32_def)
  have w: "(3 :: int) AND RAWSUM_FLAG \<noteq> 0"
    by (simp add: RAWSUM_FLAG_def)
  from samples_sums [OF r, of 0 0] k have 1: "adc_sum raw' 0 0 = 99"
    by simp
  from samples_sums [OF r, of 0 1 "\<lparr>type = 2013, version = 3, ident = 0\<rparr>"] k b i w n
  have 2: "adc_sum raw' 0 1 = trace_sum raw' 0 1"
    by simp
  have "map_option fst (read_hess_teladc_samples ex_lim ex_samples_zs_record ex_samples_seen 3)
          = Some 0"
    by code_simp
  then obtain iobuf2 raw2 where
    r2: "read_hess_teladc_samples ex_lim ex_samples_zs_record ex_samples_seen 3
           = Some (0, iobuf2, raw2)"
    by (cases "read_hess_teladc_samples ex_lim ex_samples_zs_record ex_samples_seen 3") auto
  have b2: "get_item_begin ex_samples_zs_record IO_TYPE_HESS_TELADCSAMP
             = (0, \<lparr>type = 2013, version = 3, ident = 1\<rparr>,
                [Word32 3, Word16 1, Word16 2, SCount 1, SCount (-2), SCount 4, SCount 2])"
    by (simp add: get_item_begin_def ex_samples_zs_record_def IO_TYPE_HESS_TELADCSAMP_def)
  have i2: "u32 (ident \<lparr>type = 2013, version = 3, ident = 1\<rparr>) AND 0x1f \<noteq> 0"
    by (simp add: u32_def)
  have "map_option (\<lambda>(r, d). (num_pixels r, num_gains r, d))
          (get_samples_header \<lparr>type = 2013, version = 3, ident = 1\<rparr>
             (ex_samples_seen\<lparr>num_pixels := 0\<rparr>)
             [Word32 3, Word16 1, Word16 2, SCount 1, SCount (-2), SCount 4, SCount 2])
          = Some (3, 1, [SCount 1, SCount (-2), SCount 4, SCount 2])"
    by code_simp
  then obtain raw1 where
    h: "get_samples_header \<lparr>type = 2013, version = 3, ident = 1\<rparr>
             (ex_samples_seen\<lparr>num_pixels := 0\<rparr>)
             [Word32 3, Word16 1, Word16 2, SCount 1, SCount (-2), SCount 4, SCount 2]
          = Some (raw1, [SCount 1, SCount (-2), SCount 4, SCount 2])"
    and n1: "num_pixels raw1 = 3" "num_gains raw1 = 1"
    by (cases "get_samples_header \<lparr>type = 2013, version = 3, ident = 1\<rparr>
             (ex_samples_seen\<lparr>num_pixels := 0\<rparr>)
             [Word32 3, Word16 1, Word16 2, SCount 1, SCount (-2), SCount 4, SCount 2]") auto
  have l: "get_scount32 [SCount 1, SCount (-2), SCount 4, SCount 2]
             = Some (1, [SCount (-2), SCount 4, SCount 2])"
    "get_ranges (nat 1) [SCount (-2), SCount 4, SCount 2] = Some ([(1, 1)], [SCount 4, SCount 2])"
    "list_pixels [(1, 1)] = [1]"
    by (simp_all add: s32_def list_pixels_def upt_rec)
  have k2: "adc_known ex_samples_seen 0 1 AND 1 = 0"
    by (simp add: ex_samples_seen_def adc_cleared_def)
  from samples_sums [OF r2, of 0 1 "\<lparr>type = 2013, version = 3, ident = 1\<rparr>"
      "[Word32 3, Word16 1, Word16 2, SCount 1, SCount (-2), SCount 4, SCount 2]" raw1
      "[SCount 1, SCount (-2), SCount 4, SCount 2]" 1 "[SCount (-2), SCount 4, SCount 2]"
      "[(1, 1)]" "[SCount 4, SCount 2]"] w b2 i2 h l k2 n1
  have 3: "adc_sum raw2 0 1 = trace_sum raw2 0 1"
    by simp
  from 1 2 3 show ?thesis
    unfolding r r2 by simp
qed

subsection \<open>Sampled traces with low-gain reduction\<close>

lemma appends_ranges: "appends (put_ranges pixel_list)"
proof -
  have "appends (put_range r)" for r
    unfolding put_range_def [abs_def] by (intro appends_ite appends_intros appends_prim)
  then show ?thesis
    unfolding put_ranges_def [abs_def]
    by (intro appends_after [OF appends_fold appends_prim(6)])
qed

lemma appends_traces: "appends (put_traces raw igain pixels)"
  unfolding put_traces_def [abs_def] by (intro appends_fold appends_adcsum)

lemma fst_appends: "appends f \<Longrightarrow> fst (f it) = fst it"
  using appendsD [of f it] by auto

lemma bit5:
  fixes x :: int
  assumes "x AND 0x20 \<noteq> 0"
  shows "drop_bit 5 (x AND 0x20) \<noteq> 0"
proof
  assume a: "drop_bit 5 (x AND 0x20) = 0"
  define y where "y = x AND 0x20"
  have "0 \<le> y" by (simp add: y_def)
  moreover from a have "y div 32 = 0" by (simp add: y_def drop_bit_eq_div)
  ultimately have "y mod 32 = y" by presburger
  moreover have "y AND 0x1f = x AND (0x20 AND 0x1f)"
    unfolding y_def by (simp only: and.assoc)
  then have "y AND 0x1f = 0" by simp
  ultimately have "y = 0" by (simp add: and_0x1f)
  with assms show False by (simp add: y_def)
qed

lemma samples_header_written:
  assumes "known raw \<noteq> 0" and "zero_sup_mode raw AND 0x20 \<noteq> 0"
    and "data_red_mode raw AND 0x20 \<noteq> 0"
    and "0 \<le> num_pixels raw" and "1 \<le> num_gains raw" and "num_gains raw \<le> H_MAX_GAINS"
  shows "\<exists>it. write_hess_teladc_samples iobuf raw = (0, iobuf @ [it]) \<and>
              type (fst it) = IO_TYPE_HESS_TELADCSAMP \<and> version (fst it) = 4"
proof -
  have z: "drop_bit 5 (zero_sup_mode raw AND 0x20) \<noteq> 0"
    using assms(2) by (rule bit5)
  have d: "data_red_mode raw \<noteq> 0"
    using assms(3) by auto
  note f = fst_appends [OF appends_ranges] fst_appends [OF appends_traces]
    fst_appends [OF appends_prim(2)] fst_appends [OF appends_prim(3)]
  show ?thesis
    using assms z d
    by (simp add: write_hess_teladc_samples_def Let_def put_item_end_def f put_item_begin_def)
qed

text \<open>
  Claim C2. Data with sampled traces, known, with valid counts and with zero suppression
  and low-gain reduction enabled for the samples is written by
  \<^verbatim>\<open>write_hess_teladc_samples\<close> as a record of version 4, and
  \<^verbatim>\<open>read_hess_teladc_samples\<close> returns -1 for that record without decoding it,
  whatever the limits, the data read into and the options are.
\<close>

theorem low_gain_reduced_refused:
  assumes "known raw \<noteq> 0" and "zero_sup_mode raw AND 0x20 \<noteq> 0"
    and "data_red_mode raw AND 0x20 \<noteq> 0"
    and "0 \<le> num_pixels raw" and "1 \<le> num_gains raw" and "num_gains raw \<le> H_MAX_GAINS"
  shows "\<exists>it. write_hess_teladc_samples [] raw = (0, [it]) \<and> version (fst it) = 4 \<and>
              read_hess_teladc_samples lim [it] raw0 what = Some (-1, [], raw0\<lparr>num_pixels := 0\<rparr>)"
proof -
  from samples_header_written [OF assms, of "[]"] obtain it where
    w: "write_hess_teladc_samples [] raw = (0, [it])"
    and h: "type (fst it) = IO_TYPE_HESS_TELADCSAMP" "version (fst it) = 4"
    by auto
  have "read_hess_teladc_samples lim [it] raw0 what = Some (-1, [], raw0\<lparr>num_pixels := 0\<rparr>)"
    using h
    by (cases it)
       (simp add: read_hess_teladc_samples_def Let_def get_item_begin_def get_item_end_def)
  with w h show ?thesis by simp
qed

text \<open>
  The data \<open>ex_low_gain_reduced\<close> is such data: its record has version 4 and the bit
  for the reduction in the identifier, and the reader returns -1. With data reduction for
  the sums only the record has version 3 and the traces of the high gain only, so that the
  reader, which expects the traces of both gains, reads beyond its data.
\<close>

theorem low_gain_reduced_samples:
  "(\<exists>it. write_hess_teladc_samples [] ex_low_gain_reduced = (0, [it]) \<and>
          fst it = \<lparr>type = 2013, version = 4, ident = 33\<rparr> \<and>
          read_hess_teladc_samples ex_lim [it] adc_cleared 3
            = Some (-1, [], adc_cleared\<lparr>num_pixels := 0\<rparr>)) \<and>
   (case write_hess_teladc_samples [] (ex_low_gain_reduced\<lparr>data_red_mode := 1\<rparr>) of
      (rc, iobuf) \<Rightarrow>
        rc = 0 \<and>
        iobuf = [(\<lparr>type = 2013, version = 3, ident = 1\<rparr>,
                  [Word32 2, Word16 2, Word16 2, SCount 1, SCount (-1), SCount 5, SCount 2])] \<and>
        read_hess_teladc_samples ex_lim iobuf adc_cleared 3 = None)"
proof (rule conjI)
  have "known ex_low_gain_reduced \<noteq> 0" "zero_sup_mode ex_low_gain_reduced AND 0x20 \<noteq> 0"
    "data_red_mode ex_low_gain_reduced AND 0x20 \<noteq> 0" "0 \<le> num_pixels ex_low_gain_reduced"
    "1 \<le> num_gains ex_low_gain_reduced" "num_gains ex_low_gain_reduced \<le> H_MAX_GAINS"
    by (simp_all add: ex_low_gain_reduced_def adc_cleared_def H_MAX_GAINS_def)
  from low_gain_reduced_refused [OF this, of ex_lim adc_cleared 3] obtain it where
    w: "write_hess_teladc_samples [] ex_low_gain_reduced = (0, [it])"
    and r: "read_hess_teladc_samples ex_lim [it] adc_cleared 3
              = Some (-1, [], adc_cleared\<lparr>num_pixels := 0\<rparr>)"
    by auto
  have "map fst (snd (write_hess_teladc_samples [] ex_low_gain_reduced))
          = [\<lparr>type = 2013, version = 4, ident = 33\<rparr>]"
    by code_simp
  with w have "fst it = \<lparr>type = 2013, version = 4, ident = 33\<rparr>" by simp
  with w r show "\<exists>it. write_hess_teladc_samples [] ex_low_gain_reduced = (0, [it]) \<and>
          fst it = \<lparr>type = 2013, version = 4, ident = 33\<rparr> \<and>
          read_hess_teladc_samples ex_lim [it] adc_cleared 3
            = Some (-1, [], adc_cleared\<lparr>num_pixels := 0\<rparr>)"
    by blast
next
  show "case write_hess_teladc_samples [] (ex_low_gain_reduced\<lparr>data_red_mode := 1\<rparr>) of
      (rc, iobuf) \<Rightarrow>
        rc = 0 \<and>
        iobuf = [(\<lparr>type = 2013, version = 3, ident = 1\<rparr>,
                  [Word32 2, Word16 2, Word16 2, SCount 1, SCount (-1), SCount 5, SCount 2])] \<and>
        read_hess_teladc_samples ex_lim iobuf adc_cleared 3 = None"
    by code_simp
qed

subsection \<open>The pixel list with low-gain reduction\<close>

lemma set_list [simp]:
  "adc_list (set_significant p v raw) = adc_list raw"
  "adc_list (set_known g p v raw) = adc_list raw"
  "adc_list (set_sum g p v raw) = adc_list raw"
  by (simp_all add: set_significant_def set_known_def set_sum_def)

lemma z2_store_list: "adc_list (z2_store lo hi hg8 scale offset es m raw) = adc_list raw"
  by (induction lo hi hg8 scale offset es m raw rule: z2_store.induct) (simp_all add: Let_def)

lemma get_sums_z2_first:
  assumes "get_sums_z2 lim 3 scale offset raw (Word16 2 # Word16 1 # Word16 v # rest) = Some (raw', rest')"
  shows "adc_list raw' 0 = 1"
proof -
  have l: "s16 2 = 2"
    "get_vector_of_int 2 (Word16 1 # Word16 v # rest) = Some ([1, s16 v], rest)"
    by (simp_all add: s16_def get_vector_of_int_def numeral_2_eq_2)
  from assms show ?thesis
    by (auto simp: get_sums_z2_def l Let_def z2_store_list store_def z2_entry_def
          split: option.splits if_splits)
qed

lemma list_low_gain_decoded:
  assumes "read_hess_teladc_sums ex_lim
             [(\<lparr>type = 2012, version = 3, ident = 1058\<rparr>,
               Word32 2 # Word16 2 # Word16 2 # Word16 1 # Word16 v # rest)] raw
           = Some (rc, iobuf', raw')"
  shows "rc = 0 \<and> adc_list raw' 0 = 1"
proof -
  let ?h = "\<lparr>type = 2012, version = 3, ident = 1058\<rparr>"
  let ?raw = "raw\<lparr>known := 0, num_pixels := 0\<rparr>"
  let ?dat = "Word32 2 # Word16 2 # Word16 2 # Word16 1 # Word16 v # rest"
  let ?dat1 = "Word16 2 # Word16 1 # Word16 v # rest"
  have ib: "get_item_begin [(?h, ?dat)] IO_TYPE_HESS_TELADCSUM = (0, ?h, ?dat)"
    by (simp add: get_item_begin_def IO_TYPE_HESS_TELADCSUM_def)
  have f: "u32 1058 AND 0x1f = 2" "drop_bit 5 (u32 1058) AND 0x1f = 1"
    by (simp_all add: u32_def and_0x1f drop_bit_eq_div)
  obtain raw1 where
    h: "get_sums_header ?h ?raw ?dat = Some (raw1, ?dat1)"
    and n: "num_pixels raw1 = 2" "num_gains raw1 = 2"
    by (simp add: get_sums_header_def f Let_def s32_def s16_def)
  from get_sums_header_modes [OF h] f
  have m1: "zero_sup_mode raw1 = 2" "data_red_mode raw1 = 1" by simp_all
  have g: "get_sums_hg8 raw1 ?dat1 = Some (raw1, 0, 1, ?dat1)"
    by (simp add: get_sums_hg8_def m1)
  have inv: "\<not> sums_invalid ex_lim raw1"
    by (simp add: sums_invalid_def ex_lim_def H_MAX_GAINS_def n m1)
  from assms ib h inv g obtain raw3 where
    i: "sums_init raw1 = Some raw3"
    by (cases "sums_init raw1") (auto simp: read_hess_teladc_sums_def Let_def)
  from assms ib h inv g i obtain raw4 dat3 where
    s: "get_sums ex_lim 3 1 0 raw3 ?dat1 = Some (raw4, dat3)"
    and r: "raw' = raw4\<lparr>known := 1\<rparr>" "rc = 0"
    by (cases "get_sums ex_lim 3 1 0 raw3 ?dat1")
       (auto simp: read_hess_teladc_sums_def Let_def get_item_end_def)
  from sums_init_flags [OF i] m1
  have m3: "zero_sup_mode raw3 = 2" "data_red_mode raw3 = 1" by simp_all
  from s have "get_sums_z2 ex_lim 3 1 0 raw3 ?dat1 = Some (raw4, dat3)"
    by (simp add: get_sums_def m3 Let_def)
  from get_sums_z2_first [OF this] show ?thesis
    by (simp add: r)
qed

text \<open>
  Claim C1. The data \<open>ex_list_low_gain\<close> has the pixel list 0, 1 with zero suppression 2
  and data reduction 1; pixel 0 has no low gain. The list starts with pixel 0 in the data
  and with pixel 1 in the record that \<^verbatim>\<open>write_hess_teladc_sums\<close> writes, whatever the
  uninitialised local array holds; its second entry is what that array holds. The
  record cannot be decoded when the array holds zeros, and comes back with the high-gain
  sums of the two pixels exchanged when it holds the one value that lets the reader
  through.
\<close>

theorem list_low_gain_garbled:
  "adc_list ex_list_low_gain 0 = 0 \<and> map (adc_sum ex_list_low_gain HI_GAIN) [0, 1] = [10, 20] \<and>
   (case write_hess_teladc_sums stack [] ex_list_low_gain of
      None \<Rightarrow> False
    | Some (rc, iobuf, raw1) \<Rightarrow>
        rc = 0 \<and>
        (\<exists>rest. iobuf = [(\<lparr>type = 2012, version = 3, ident = 1058\<rparr>,
                  Word32 2 # Word16 2 # Word16 2 # Word16 1 # Word16 (u16 (stack 1)) # rest)]) \<and>
        (case read_hess_teladc_sums ex_lim iobuf adc_cleared of
           None \<Rightarrow> True
         | Some (rc', iobuf', raw') \<Rightarrow> rc' = 0 \<and> adc_list raw' 0 = 1)) \<and>
   (case write_hess_teladc_sums (\<lambda>j. 0) [] ex_list_low_gain of
      None \<Rightarrow> False
    | Some (rc, iobuf, raw1) \<Rightarrow> read_hess_teladc_sums ex_lim iobuf adc_cleared = None) \<and>
   (case write_hess_teladc_sums (\<lambda>j. 0x2000) [] ex_list_low_gain of
      None \<Rightarrow> False
    | Some (rc, iobuf, raw1) \<Rightarrow>
        (case read_hess_teladc_sums ex_lim iobuf adc_cleared of
           None \<Rightarrow> False
         | Some (rc', iobuf', raw') \<Rightarrow>
             rc' = 0 \<and> map (adc_list raw') [0, 1] = [1, 0] \<and>
             map (adc_sum raw' HI_GAIN) [0, 1] = [20, 10]))"
proof (intro conjI)
  show "adc_list ex_list_low_gain 0 = 0"
    and "map (adc_sum ex_list_low_gain HI_GAIN) [0, 1] = [10, 20]"
    by (simp_all add: ex_list_low_gain_def adc_cleared_def HI_GAIN_def)
next
  let ?rest = "[SCount 30, SCount 10, SCount 10]"
  let ?iobuf = "[(\<lparr>type = 2012, version = 3, ident = 1058\<rparr>,
                  Word32 2 # Word16 2 # Word16 2 # Word16 1 # Word16 (u16 (stack 1)) # ?rest)]"
  have "map_option (\<lambda>(rc, iobuf, raw'). (rc, iobuf))
          (write_hess_teladc_sums stack [] ex_list_low_gain) = Some (0, ?iobuf)"
    by code_simp
  then obtain raw1 where
    w: "write_hess_teladc_sums stack [] ex_list_low_gain = Some (0, ?iobuf, raw1)"
    by (cases "write_hess_teladc_sums stack [] ex_list_low_gain") auto
  have "rc' = 0 \<and> adc_list raw' 0 = 1"
    if "read_hess_teladc_sums ex_lim ?iobuf adc_cleared = Some (rc', iobuf', raw')"
    for rc' iobuf' raw'
    using that by (rule list_low_gain_decoded)
  then show "case write_hess_teladc_sums stack [] ex_list_low_gain of
      None \<Rightarrow> False
    | Some (rc, iobuf, raw1) \<Rightarrow>
        rc = 0 \<and>
        (\<exists>rest. iobuf = [(\<lparr>type = 2012, version = 3, ident = 1058\<rparr>,
                  Word32 2 # Word16 2 # Word16 2 # Word16 1 # Word16 (u16 (stack 1)) # rest)]) \<and>
        (case read_hess_teladc_sums ex_lim iobuf adc_cleared of
           None \<Rightarrow> True
         | Some (rc', iobuf', raw') \<Rightarrow> rc' = 0 \<and> adc_list raw' 0 = 1)"
    unfolding w by (auto split: option.splits)
next
  show "case write_hess_teladc_sums (\<lambda>j. 0) [] ex_list_low_gain of
      None \<Rightarrow> False
    | Some (rc, iobuf, raw1) \<Rightarrow> read_hess_teladc_sums ex_lim iobuf adc_cleared = None"
    by code_simp
next
  show "case write_hess_teladc_sums (\<lambda>j. 0x2000) [] ex_list_low_gain of
      None \<Rightarrow> False
    | Some (rc, iobuf, raw1) \<Rightarrow>
        (case read_hess_teladc_sums ex_lim iobuf adc_cleared of
           None \<Rightarrow> False
         | Some (rc', iobuf', raw') \<Rightarrow>
             rc' = 0 \<and> map (adc_list raw') [0, 1] = [1, 0] \<and>
             map (adc_sum raw' HI_GAIN) [0, 1] = [20, 10])"
    by code_simp
qed

end
